theory Spec2Isabelle
  imports Complex_Main "HOL-Library.Log_Nat" "HOL-Library.Word"
begin

section \<open>Go strings\<close>

text \<open>
  A Go \<^verbatim>\<open>string\<close> and a \<^verbatim>\<open>[]byte\<close> are byte sequences; both are modelled as
  \<^typ>\<open>string\<close> (a list of 8-bit characters).

  \<^verbatim>\<open>strings.ToLower\<close> and \<^verbatim>\<open>strings.TrimSpace\<close> belong to the Go standard library
  and work on Unicode code points (\<^verbatim>\<open>ToLower\<close> maps the Kelvin sign U+212A to \<^verbatim>\<open>k\<close>,
  \<^verbatim>\<open>TrimSpace\<close> strips U+00A0 and others).  The functions of this repository that call them
  take them as the parameters \<open>lower\<close> and \<open>trim\<close>, so that every theorem holds for the
  library's real functions.  \<open>asciiToLower\<close> and \<open>asciiTrimSpace\<close> are what the two do on
  ASCII strings; they are used to run the model on concrete inputs.
\<close>

definition asciiLowerChar :: "char \<Rightarrow> char" where
  "asciiLowerChar c =
     (if 65 \<le> (of_char c :: nat) \<and> (of_char c :: nat) \<le> 90
      then char_of ((of_char c :: nat) + 32) else c)"

definition asciiToLower :: "string \<Rightarrow> string" where
  "asciiToLower s = map asciiLowerChar s"

definition asciiSpace :: "char \<Rightarrow> bool" where
  "asciiSpace c = ((of_char c :: nat) \<in> {9, 10, 11, 12, 13, 32})"

definition asciiTrimSpace :: "string \<Rightarrow> string" where
  "asciiTrimSpace s = rev (dropWhile asciiSpace (rev (dropWhile asciiSpace s)))"

text \<open>\<^verbatim>\<open>strings.HasPrefix\<close> and \<^verbatim>\<open>strings.Contains\<close> compare bytes.\<close>

fun hasPrefix :: "string \<Rightarrow> string \<Rightarrow> bool" where
  "hasPrefix s [] = True"
| "hasPrefix [] (p # ps) = False"
| "hasPrefix (c # cs) (p # ps) = (c = p \<and> hasPrefix cs ps)"

fun contains :: "string \<Rightarrow> string \<Rightarrow> bool" where
  "contains [] sub = (sub = [])"
| "contains (c # cs) sub = (hasPrefix (c # cs) sub \<or> contains cs sub)"

section \<open>Protocol detector (internal/inline/inline.go)\<close>

datatype Protocol = ProtocolNone | ProtocolKitty | ProtocolIterm

text \<open>
  \<^verbatim>\<open>detectInline(getenv)\<close>.  The \<^verbatim>\<open>switch\<close> on the override returns in every case but
  \<^verbatim>\<open>""\<close> and \<^verbatim>\<open>"auto"\<close>, which leave the switch and reach the heuristics.
\<close>

definition detectInline ::
  "(string \<Rightarrow> string) \<Rightarrow> (string \<Rightarrow> string) \<Rightarrow> (string \<Rightarrow> string) \<Rightarrow> Protocol"
where
  "detectInline lower trim getenv =
    (let override = lower (trim (getenv ''METCLI_INLINE'')) in
     if override = ''kitty'' then ProtocolKitty
     else if override = ''iterm'' \<or> override = ''iterm2'' then ProtocolIterm
     else if override = ''none'' \<or> override = ''off'' \<or> override = ''false'' \<or> override = ''0''
       then ProtocolNone
     else if \<not> (override = '''' \<or> override = ''auto'') then ProtocolNone
     else if trim (getenv ''KITTY_WINDOW_ID'') \<noteq> '''' then ProtocolKitty
     else
       (let termProgram = lower (getenv ''TERM_PROGRAM'') in
        if contains termProgram ''ghostty'' then ProtocolKitty
        else if contains termProgram ''iterm'' \<or> trim (getenv ''ITERM_SESSION_ID'') \<noteq> ''''
          then ProtocolIterm
        else if contains termProgram ''apple_terminal'' then ProtocolNone
        else
          (let term = lower (getenv ''TERM'') in
           if contains term ''xterm-kitty'' \<or> contains term ''ghostty'' then ProtocolKitty
           else ProtocolNone)))"

subsection \<open>The ordered rule list of the specification\<close>

text \<open>
  The rule list as the specification words it: five rules, each either decides or passes,
  the first that decides wins.  \<open>present\<close> is the test used for "set / non-empty": the
  specification's reading is \<open>\<lambda>v. v \<noteq> ''''\<close> on the raw value, the code's is non-emptiness
  after \<open>trim\<close>; \<open>nrm\<close> is what is done to the override before it is compared.
\<close>

type_synonym rule = "(string \<Rightarrow> string) \<Rightarrow> Protocol option"

definition rule_override :: "(string \<Rightarrow> string) \<Rightarrow> rule" where
  "rule_override nrm getenv =
    (let v = nrm (getenv ''METCLI_INLINE'') in
     if v = ''kitty'' then Some ProtocolKitty
     else if v \<in> {''iterm'', ''iterm2''} then Some ProtocolIterm
     else if v \<in> {''none'', ''off'', ''false'', ''0''} then Some ProtocolNone
     else if v \<in> {'''', ''auto''} then None
     else Some ProtocolNone)"

definition rule_window_id :: "(string \<Rightarrow> bool) \<Rightarrow> rule" where
  "rule_window_id present getenv =
    (if present (getenv ''KITTY_WINDOW_ID'') then Some ProtocolKitty else None)"

definition rule_term_program :: "(string \<Rightarrow> string) \<Rightarrow> (string \<Rightarrow> bool) \<Rightarrow> rule" where
  "rule_term_program lower present getenv =
    (let p = lower (getenv ''TERM_PROGRAM'') in
     if contains p ''ghostty'' then Some ProtocolKitty
     else if contains p ''iterm'' \<or> present (getenv ''ITERM_SESSION_ID'') then Some ProtocolIterm
     else if contains p ''apple_terminal'' then Some ProtocolNone
     else None)"

definition rule_term :: "(string \<Rightarrow> string) \<Rightarrow> rule" where
  "rule_term lower getenv =
    (let t = lower (getenv ''TERM'') in
     if contains t ''xterm-kitty'' \<or> contains t ''ghostty'' then Some ProtocolKitty else None)"

fun first_match :: "rule list \<Rightarrow> (string \<Rightarrow> string) \<Rightarrow> Protocol" where
  "first_match [] getenv = ProtocolNone"
| "first_match (r # rs) getenv =
     (case r getenv of Some p \<Rightarrow> p | None \<Rightarrow> first_match rs getenv)"

definition detect_rules ::
  "(string \<Rightarrow> string) \<Rightarrow> (string \<Rightarrow> string) \<Rightarrow> (string \<Rightarrow> bool) \<Rightarrow> (string \<Rightarrow> string) \<Rightarrow> Protocol"
where
  "detect_rules lower nrm present =
     first_match [rule_override nrm, rule_window_id present,
                  rule_term_program lower present, rule_term lower]"

definition nonEmpty :: "string \<Rightarrow> bool" where
  "nonEmpty v = (v \<noteq> '''')"

definition trimmedNonEmpty :: "(string \<Rightarrow> string) \<Rightarrow> string \<Rightarrow> bool" where
  "trimmedNonEmpty trim v = (trim v \<noteq> '''')"

definition lowerTrimmed :: "(string \<Rightarrow> string) \<Rightarrow> (string \<Rightarrow> string) \<Rightarrow> string \<Rightarrow> string" where
  "lowerTrimmed lower trim v = lower (trim v)"

text \<open>Environments used below: every variable unset but the ones listed.\<close>

fun env_of :: "(string \<times> string) list \<Rightarrow> string \<Rightarrow> string" where
  "env_of [] k = ''''"
| "env_of ((k', v) # kvs) k = (if k = k' then v else env_of kvs k)"

definition env_blank_window_id :: "string \<Rightarrow> string" where
  "env_blank_window_id = env_of [(''KITTY_WINDOW_ID'', '' '')]"

definition env_window_id_override_none :: "string \<Rightarrow> string" where
  "env_window_id_override_none =
     env_of [(''METCLI_INLINE'', ''None''), (''KITTY_WINDOW_ID'', ''42'')]"

section \<open>Formatting helpers of the Go library\<close>

text \<open>\<^verbatim>\<open>fmt.Sprintf("%d", n)\<close>: decimal digits, with a minus sign for a negative value.\<close>

definition digitChar :: "nat \<Rightarrow> char" where
  "digitChar n = char_of (48 + n)"

function showNat :: "nat \<Rightarrow> string" where
  "showNat n = (if n < 10 then [digitChar n] else showNat (n div 10) @ [digitChar (n mod 10)])"
  by pat_completeness auto
termination
  by (relation "measure id") auto

definition showInt :: "int \<Rightarrow> string" where
  "showInt i = (if i < 0 then ''-'' @ showNat (nat (- i)) else showNat (nat i))"

text \<open>\<^verbatim>\<open>strings.Join(elems, sep)\<close>.\<close>

fun joinWith :: "string \<Rightarrow> string list \<Rightarrow> string" where
  "joinWith sep [] = []"
| "joinWith sep [x] = x"
| "joinWith sep (x # y # ys) = x @ sep @ joinWith sep (y # ys)"

text \<open>
  \<^verbatim>\<open>base64.StdEncoding.EncodeToString\<close>: the alphabet of RFC 4648 with \<^verbatim>\<open>=\<close> padding,
  three bytes to four characters.
\<close>

definition b64char :: "nat \<Rightarrow> char" where
  "b64char n =
     (if n < 26 then char_of (65 + n)
      else if n < 52 then char_of (97 + (n - 26))
      else if n < 62 then char_of (48 + (n - 52))
      else if n = 62 then CHR ''+'' else CHR ''/'')"

fun base64 :: "string \<Rightarrow> string" where
  "base64 [] = []"
| "base64 [a] =
     (let x = (of_char a :: nat)
      in [b64char (x div 4), b64char ((x mod 4) * 16), CHR ''='', CHR ''=''])"
| "base64 [a, b] =
     (let x = (of_char a :: nat); y = (of_char b :: nat)
      in [b64char (x div 4), b64char ((x mod 4) * 16 + y div 16),
          b64char ((y mod 16) * 4), CHR ''=''])"
| "base64 (a # b # c # rest) =
     (let x = (of_char a :: nat); y = (of_char b :: nat); z = (of_char c :: nat)
      in [b64char (x div 4), b64char ((x mod 4) * 16 + y div 16),
          b64char ((y mod 16) * 4 + z div 64), b64char (z mod 64)] @ base64 rest)"

text \<open>
  \<^verbatim>\<open>path.Base\<close>: the empty path is \<^verbatim>\<open>.\<close>, trailing slashes are stripped, the part
  after the last slash is kept, and a path of slashes only is \<^verbatim>\<open>/\<close>.
\<close>

definition stripTrailingSlashes :: "string \<Rightarrow> string" where
  "stripTrailingSlashes p = rev (dropWhile (\<lambda>c. c = CHR ''/'') (rev p))"

definition afterLastSlash :: "string \<Rightarrow> string" where
  "afterLastSlash p = rev (takeWhile (\<lambda>c. c \<noteq> CHR ''/'') (rev p))"

definition pathBase :: "string \<Rightarrow> string" where
  "pathBase p =
     (if p = '''' then ''.''
      else (let q = afterLastSlash (stripTrailingSlashes p)
            in if q = '''' then ''/'' else q))"

text \<open>
  A \<^verbatim>\<open>*bufio.Writer\<close> is \<open>None\<close> when the pointer is nil and otherwise holds the bytes
  written through it so far, in order.  Write errors are discarded by the code
  (\<^verbatim>\<open>_, _ = fmt.Fprint...\<close>) and are not modelled.
\<close>

type_synonym writer = "string option"

definition ESC :: char where
  "ESC = CHR 0x1B"

definition ST :: string where
  "ST = [ESC, CHR 0x5C]"

section \<open>Kitty encoder (internal/inline/kitty.go)\<close>

record kittyData =
  Action :: string
  ID :: "32 word"
  Data :: string
  Cols :: int
  Rows :: int
  NoCursor :: bool

definition chunkSize :: nat where
  "chunkSize = 4096"

text \<open>The parameter list of the first chunk, before \<^verbatim>\<open>strings.Join(params, ",")\<close>.\<close>

definition firstParams :: "kittyData \<Rightarrow> int \<Rightarrow> string list" where
  "firstParams d moreFlag =
     [''a='' @ Action d, ''f=100'', ''i='' @ showNat (unat (ID d)), ''m='' @ showInt moreFlag, ''q=2'']
     @ (if Cols d > 0 then [''c='' @ showInt (Cols d)] else [])
     @ (if Rows d > 0 then [''r='' @ showInt (Rows d)] else [])
     @ (if NoCursor d then [''C=1''] else [])"

text \<open>
  The loop of \<^verbatim>\<open>sendKittyData\<close>: \<open>encoded\<close> is what is left of the base64 text,
  \<open>first\<close> the flag of the same name, \<open>out\<close> the bytes written so far.
\<close>

function sendKittyLoop :: "kittyData \<Rightarrow> bool \<Rightarrow> string \<Rightarrow> string \<Rightarrow> string" where
  "sendKittyLoop d first encoded out =
     (if length encoded > 0 then
        (let chunk = (if length encoded > chunkSize then take chunkSize encoded else encoded);
             encoded' = drop (length chunk) encoded;
             moreFlag = (if length encoded' > 0 then 1 else 0 :: int);
             out1 = (if first
                     then out @ [ESC] @ ''_G'' @ joinWith '','' (firstParams d moreFlag) @ '';''
                     else out @ [ESC] @ ''_Gm='' @ showInt moreFlag @ '';'');
             out2 = out1 @ chunk;
             out3 = out2 @ ST
         in sendKittyLoop d False encoded' out3)
      else out)"
  by pat_completeness auto
termination
  by (relation "measure (\<lambda>(d, first, encoded, out). length encoded)")
     (auto simp: chunkSize_def)

definition sendKittyData :: "string \<Rightarrow> kittyData \<Rightarrow> string" where
  "sendKittyData out d = sendKittyLoop d True (base64 (Data d)) out"

definition SendKittyPNG :: "writer \<Rightarrow> 32 word \<Rightarrow> string \<Rightarrow> int \<Rightarrow> int \<Rightarrow> writer" where
  "SendKittyPNG out ident png cols rows =
     (case out of
        None \<Rightarrow> None
      | Some w \<Rightarrow>
          if length png = 0 then Some w
          else Some (sendKittyData w
                 \<lparr>Action = ''T'', ID = ident, Data = png, Cols = cols, Rows = rows,
                  NoCursor = True\<rparr>))"

subsection \<open>The chunk sequence of the specification\<close>

text \<open>
  One chunk escape sequence: its comma-separated parameters and its payload.  On the wire
  it is \<^verbatim>\<open>ESC _G params ; payload ESC \\<close>.
\<close>

record kittyFrame =
  fparams :: "string list"
  payload :: string

definition frameBytes :: "kittyFrame \<Rightarrow> string" where
  "frameBytes f = [ESC] @ ''_G'' @ joinWith '','' (fparams f) @ '';'' @ payload f @ ST"



text \<open>The frames the loop writes when \<open>k\<close> chunks are left (used in the proofs).\<close>

fun loopFrames :: "kittyData \<Rightarrow> bool \<Rightarrow> nat \<Rightarrow> string \<Rightarrow> kittyFrame list" where
  "loopFrames d first 0 enc = []"
| "loopFrames d first (Suc k) enc =
     \<lparr>fparams = (if first then firstParams d (if k = 0 then 0 else 1)
                 else [''m='' @ showInt (if k = 0 then 0 else 1)]),
      payload = take 4096 enc\<rparr> # loopFrames d False k (drop 4096 enc)"

definition nchunks :: "string \<Rightarrow> nat" where
  "nchunks enc = (length enc + 4095) div 4096"



section \<open>iTerm encoder (internal/inline/iterm.go)\<close>

record ItermFile =
  Name :: string
  IData :: string
  WidthCells :: int
  HeightCells :: int
  Stretch :: bool

definition SendItermInline :: "(string \<Rightarrow> string) \<Rightarrow> writer \<Rightarrow> ItermFile \<Rightarrow> writer" where
  "SendItermInline trim out f =
     (case out of
        None \<Rightarrow> None
      | Some w \<Rightarrow>
          if length (IData f) = 0 then Some w
          else
            (let name0 = trim (Name f);
                 name1 = (if name0 = '''' then ''metcli.bin'' else name0);
                 name = pathBase name1;
                 preserveAspectRatio = (if Stretch f then 0 else 1 :: int);
                 args = [''name='' @ base64 name,
                         ''size='' @ showNat (length (IData f)),
                         ''inline=1'',
                         ''preserveAspectRatio='' @ showInt preserveAspectRatio]
                        @ (if WidthCells f > 0 then [''width='' @ showInt (WidthCells f)] else [])
                        @ (if HeightCells f > 0 then [''height='' @ showInt (HeightCells f)] else []);
                 encoded = base64 (IData f)
             in Some (w @ [ESC] @ '']1337;File='' @ joinWith '';'' args @ '':'' @ encoded @ ST)))"


section \<open>float64\<close>

text \<open>
  An IEEE 754 binary64 value is not-a-number, an infinity, or a finite rational.  The sign
  of zero is not modelled (both zeros are \<open>Fin 0\<close>): it could only show in a quotient by a
  negative zero, and the only divisors of this program are conversions of an \<^verbatim>\<open>int\<close>,
  which never give one.  \<open>round64\<close> is rounding to the nearest binary64, ties to even:
  a value of binary exponent \<open>e\<close> is rounded to a multiple of \<open>2^(e - 52)\<close>, below
  \<open>2^(-1022)\<close> to a multiple of \<open>2^(-1074)\<close> (gradual underflow), and what rounds to
  \<open>2^1024\<close> or more is an infinity.  The result of every arithmetic operation is the
  exact result rounded.
\<close>

datatype float64 = NaN | PosInf | NegInf | Fin rat

definition pow2 :: "int \<Rightarrow> rat" where
  "pow2 e = (if 0 \<le> e then 2 ^ nat e else 1 / 2 ^ nat (- e))"

text \<open>\<open>ilog2 a\<close> is the exponent \<open>e\<close> with \<open>2^e \<le> a < 2^(e+1)\<close>, for \<open>a > 0\<close>.\<close>

definition ilog2 :: "rat \<Rightarrow> int" where
  "ilog2 a = (if 1 \<le> a then bitlen \<lfloor>a\<rfloor> - 1 else - bitlen (\<lceil>1 / a\<rceil> - 1))"

definition roundHalfEven :: "rat \<Rightarrow> int" where
  "roundHalfEven x =
     (let f = \<lfloor>x\<rfloor>; d = x - of_int f
      in if d < 1 / 2 then f else if 1 / 2 < d then f + 1 else if even f then f else f + 1)"

definition round64 :: "rat \<Rightarrow> float64" where
  "round64 r =
     (if r = 0 then Fin 0
      else
        (let a = \<bar>r\<bar>;
             e = ilog2 a;
             q = pow2 (max e (- 1022) - 52);
             m = roundHalfEven (a / q)
         in if 1024 \<le> e \<or> (e = 1023 \<and> m = 2 ^ 53) then (if r < 0 then NegInf else PosInf)
            else Fin (if r < 0 then - (of_int m * q) else of_int m * q)))"

text \<open>The conversion \<^verbatim>\<open>float64(n)\<close> of an \<^verbatim>\<open>int\<close>.\<close>

definition ofInt :: "int \<Rightarrow> float64" where
  "ofInt n = round64 (of_int n)"

fun fmul :: "float64 \<Rightarrow> float64 \<Rightarrow> float64" where
  "fmul NaN y = NaN"
| "fmul x NaN = NaN"
| "fmul (Fin a) (Fin b) = round64 (a * b)"
| "fmul (Fin a) PosInf = (if a = 0 then NaN else if 0 < a then PosInf else NegInf)"
| "fmul (Fin a) NegInf = (if a = 0 then NaN else if 0 < a then NegInf else PosInf)"
| "fmul PosInf (Fin b) = (if b = 0 then NaN else if 0 < b then PosInf else NegInf)"
| "fmul NegInf (Fin b) = (if b = 0 then NaN else if 0 < b then NegInf else PosInf)"
| "fmul PosInf PosInf = PosInf"
| "fmul PosInf NegInf = NegInf"
| "fmul NegInf PosInf = NegInf"
| "fmul NegInf NegInf = PosInf"

fun fdiv :: "float64 \<Rightarrow> float64 \<Rightarrow> float64" where
  "fdiv NaN y = NaN"
| "fdiv x NaN = NaN"
| "fdiv (Fin a) (Fin b) =
     (if b = 0 then (if a = 0 then NaN else if 0 < a then PosInf else NegInf)
      else round64 (a / b))"
| "fdiv (Fin a) PosInf = Fin 0"
| "fdiv (Fin a) NegInf = Fin 0"
| "fdiv PosInf (Fin b) = (if 0 \<le> b then PosInf else NegInf)"
| "fdiv NegInf (Fin b) = (if 0 \<le> b then NegInf else PosInf)"
| "fdiv PosInf y = NaN"
| "fdiv NegInf y = NaN"

text \<open>The comparison \<^verbatim>\<open>x < y\<close>: false as soon as one side is not a number.\<close>

fun flt :: "float64 \<Rightarrow> float64 \<Rightarrow> bool" where
  "flt NaN y = False"
| "flt x NaN = False"
| "flt (Fin a) (Fin b) = (a < b)"
| "flt (Fin a) PosInf = True"
| "flt (Fin a) NegInf = False"
| "flt PosInf y = False"
| "flt NegInf NegInf = False"
| "flt NegInf y = True"

text \<open>
  \<^verbatim>\<open>math.Round\<close> (nearest integer, halves away from zero) and \<^verbatim>\<open>math.Ceil\<close>; both return
  an infinity or a not-a-number as it is.
\<close>

fun goRound :: "float64 \<Rightarrow> float64" where
  "goRound (Fin r) = Fin (of_int (if r < 0 then - \<lfloor>- r + 1 / 2\<rfloor> else \<lfloor>r + 1 / 2\<rfloor>))"
| "goRound x = x"

fun goCeil :: "float64 \<Rightarrow> float64" where
  "goCeil (Fin r) = Fin (of_int \<lceil>r\<rceil>)"
| "goCeil x = x"

text \<open>
  The conversion \<^verbatim>\<open>int(x)\<close> truncates towards zero.  When the value does not fit an
  \<^verbatim>\<open>int\<close> (64 bits), or is not a number, the Go specification leaves the result to the
  implementation: \<open>plat\<close> is what the platform returns then.
\<close>

definition toInt :: "(float64 \<Rightarrow> int) \<Rightarrow> float64 \<Rightarrow> int" where
  "toInt plat x =
     (case x of
        Fin r \<Rightarrow>
          (let t = (if r < 0 then \<lceil>r\<rceil> else \<lfloor>r\<rfloor>)
           in if - (2 ^ 63) \<le> t \<and> t < 2 ^ 63 then t else plat x)
      | _ \<Rightarrow> plat x)"

text \<open>On amd64 the conversion of such a value gives the smallest \<^verbatim>\<open>int\<close>.\<close>

definition plat_amd64 :: "float64 \<Rightarrow> int" where
  "plat_amd64 x = - (2 ^ 63)"

section \<open>Cell geometry (internal/inline/cell.go, cmd/ig-cookies/main.go, cmd/ig-profile/main.go)\<close>

text \<open>
  \<^verbatim>\<open>CellAspectRatio(envKey, defaultValue)\<close>.  \<open>parseFloat\<close> stands for
  \<^verbatim>\<open>strconv.ParseFloat(raw, 64)\<close>, \<open>None\<close> when it returns an error.  The constant
  \<^verbatim>\<open>0.1\<close> is the binary64 nearest to one tenth.
\<close>

definition CellAspectRatio ::
  "(string \<Rightarrow> float64 option) \<Rightarrow> (string \<Rightarrow> string) \<Rightarrow> (string \<Rightarrow> string)
     \<Rightarrow> string \<Rightarrow> float64 \<Rightarrow> float64"
where
  "CellAspectRatio parseFloat trim getenv envKey defaultValue =
     (let raw = trim (getenv envKey) in
      if raw = '''' then defaultValue
      else (case parseFloat raw of
              None \<Rightarrow> defaultValue
            | Some v \<Rightarrow>
                if flt v (round64 (1 / 10)) \<or> flt (Fin 2) v then defaultValue else v))"

text \<open>\<^verbatim>\<open>estimateRows\<close> of cmd/ig-cookies/main.go.\<close>

definition estimateRows :: "(float64 \<Rightarrow> int) \<Rightarrow> int \<Rightarrow> int \<Rightarrow> int \<Rightarrow> float64 \<Rightarrow> int" where
  "estimateRows plat colsCells widthPx heightPx cellAspect =
     (if colsCells \<le> 0 \<or> widthPx \<le> 0 \<or> heightPx \<le> 0 then 0
      else
        (let aspect = fdiv (ofInt heightPx) (ofInt widthPx);
             rows = fmul (fmul (ofInt colsCells) aspect) cellAspect;
             rows1 = (if flt rows (Fin 1) then Fin 1 else rows)
         in toInt plat (goRound rows1)))"

text \<open>
  \<^verbatim>\<open>cellAspectRatio\<close> and \<^verbatim>\<open>estimateRows\<close> of cmd/ig-profile/main.go: the same
  computation, the ratio read from the environment.
\<close>

definition cellAspectRatio ::
  "(string \<Rightarrow> float64 option) \<Rightarrow> (string \<Rightarrow> string) \<Rightarrow> (string \<Rightarrow> string) \<Rightarrow> float64"
where
  "cellAspectRatio parseFloat trim getenv =
     CellAspectRatio parseFloat trim getenv ''METCLI_CELL_ASPECT'' (Fin (1 / 2))"

definition estimateRows_profile ::
  "(float64 \<Rightarrow> int) \<Rightarrow> (string \<Rightarrow> float64 option) \<Rightarrow> (string \<Rightarrow> string) \<Rightarrow> (string \<Rightarrow> string)
     \<Rightarrow> int \<Rightarrow> int \<Rightarrow> int \<Rightarrow> int"
where
  "estimateRows_profile plat parseFloat trim getenv cols width height =
     (if cols \<le> 0 \<or> width \<le> 0 \<or> height \<le> 0 then 0
      else
        (let aspect = fdiv (ofInt height) (ofInt width);
             rows = fmul (fmul (ofInt cols) aspect) (cellAspectRatio parseFloat trim getenv);
             rows1 = (if flt rows (Fin 1) then Fin 1 else rows)
         in toInt plat (goRound rows1)))"


section \<open>Go integers\<close>

text \<open>
  An \<^verbatim>\<open>int\<close> is 64 bits wide.  It is modelled as an \<^typ>\<open>int\<close> between \<open>-2^63\<close> and
  \<open>2^63 - 1\<close>; sums, differences and products wrap around.  The quotient truncates
  towards zero and the remainder has the sign of the dividend; a zero divisor panics, which
  the callers below check before they divide.
\<close>

definition wrap64 :: "int \<Rightarrow> int" where
  "wrap64 x = (x + 2 ^ 63) mod 2 ^ 64 - 2 ^ 63"

definition go_add :: "int \<Rightarrow> int \<Rightarrow> int" where
  "go_add a b = wrap64 (a + b)"

definition go_sub :: "int \<Rightarrow> int \<Rightarrow> int" where
  "go_sub a b = wrap64 (a - b)"

definition go_mul :: "int \<Rightarrow> int \<Rightarrow> int" where
  "go_mul a b = wrap64 (a * b)"

definition go_div :: "int \<Rightarrow> int \<Rightarrow> int" where
  "go_div a b = wrap64 (sgn a * sgn b * (\<bar>a\<bar> div \<bar>b\<bar>))"

definition go_mod :: "int \<Rightarrow> int \<Rightarrow> int" where
  "go_mod a b = sgn a * (\<bar>a\<bar> mod \<bar>b\<bar>)"

section \<open>Image compositor (cmd/ig-cookies/main.go)\<close>

text \<open>A failure is an \<^verbatim>\<open>error\<close> value returned to the caller, or a panic.\<close>

datatype failure = Error string | Panic string

text \<open>\<^verbatim>\<open>image.Rectangle\<close>; \<^verbatim>\<open>image.Rect\<close> orders the corners.\<close>

record rectangle =
  minX :: int
  minY :: int
  maxX :: int
  maxY :: int

definition Rect :: "int \<Rightarrow> int \<Rightarrow> int \<Rightarrow> int \<Rightarrow> rectangle" where
  "Rect x0 y0 x1 y1 =
     \<lparr>minX = (if x0 > x1 then x1 else x0), minY = (if y0 > y1 then y1 else y0),
      maxX = (if x0 > x1 then x0 else x1), maxY = (if y0 > y1 then y0 else y1)\<rparr>"

definition Dx :: "rectangle \<Rightarrow> int" where
  "Dx r = go_sub (maxX r) (minX r)"

definition Dy :: "rectangle \<Rightarrow> int" where
  "Dy r = go_sub (maxY r) (minY r)"

text \<open>
  Pixels are not modelled.  A thumbnail is the source image, the square cut out of it and
  the side it is scaled to; a canvas is its bounds and the \<^verbatim>\<open>Draw\<close> calls made on it, in
  order, each with its destination rectangle.
\<close>

datatype 'img thumb = Thumb (source: 'img) (crop: rectangle) (side: int)

record 'img canvas =
  bounds :: rectangle
  drawn :: "(rectangle \<times> 'img thumb) list"

text \<open>
  The image library: \<open>allocRGBA r\<close> tells whether \<^verbatim>\<open>image.NewRGBA(r)\<close> returns (it panics
  on huge or negative dimensions), \<open>imgBounds\<close> is \<^verbatim>\<open>img.Bounds()\<close>, and \<open>encodePNG\<close> is
  \<^verbatim>\<open>png.Encode\<close>, with \<open>Inl\<close> its error.
\<close>

record 'img imaging =
  allocRGBA :: "rectangle \<Rightarrow> bool"
  imgBounds :: "'img \<Rightarrow> rectangle"
  encodePNG :: "'img canvas \<Rightarrow> string + string"

text \<open>\<^verbatim>\<open>cropSquare\<close>: the centred square of side \<open>min(width, height)\<close>.\<close>

definition cropSquare :: "'img imaging \<Rightarrow> 'img \<Rightarrow> rectangle" where
  "cropSquare lib img =
     (let b = imgBounds lib img;
          width = Dx b;
          height = Dy b;
          sz = (if height < width then height else width);
          x0 = go_add (minX b) (go_div (go_sub width sz) 2);
          y0 = go_add (minY b) (go_div (go_sub height sz) 2)
      in Rect x0 y0 (go_add x0 sz) (go_add y0 sz))"

text \<open>\<^verbatim>\<open>resizeSquare\<close>; \<open>None\<close> when the allocation of the thumbnail panics.\<close>

definition resizeSquare :: "'img imaging \<Rightarrow> 'img \<Rightarrow> int \<Rightarrow> 'img thumb option" where
  "resizeSquare lib img sz =
     (let crop = cropSquare lib img
      in if allocRGBA lib (Rect 0 0 sz sz) then Some (Thumb img crop sz) else None)"

text \<open>The loop of \<^verbatim>\<open>buildGridPNG\<close> over the images, \<open>i\<close> the index of the next one.\<close>

fun drawThumbs ::
  "'img imaging \<Rightarrow> 'img list \<Rightarrow> int \<Rightarrow> int \<Rightarrow> int \<Rightarrow> int \<Rightarrow> 'img canvas \<Rightarrow> failure + 'img canvas"
where
  "drawThumbs lib [] cols thumbPx paddingPx i cv = Inr cv"
| "drawThumbs lib (img # rest) cols thumbPx paddingPx i cv =
     (if cols = 0 then Inl (Panic ''runtime error: integer divide by zero'')
      else
        (let row = go_div i cols;
             col = go_mod i cols;
             x = go_mul col (go_add thumbPx paddingPx);
             y = go_mul row (go_add thumbPx paddingPx)
         in case resizeSquare lib img thumbPx of
              None \<Rightarrow> Inl (Panic ''image: NewRGBA Rectangle has huge or negative dimensions'')
            | Some thumb \<Rightarrow>
                (let rect = Rect x y (go_add x thumbPx) (go_add y thumbPx)
                 in drawThumbs lib rest cols thumbPx paddingPx (i + 1)
                      (cv\<lparr>drawn := drawn cv @ [(rect, thumb)]\<rparr>))))"

text \<open>\<^verbatim>\<open>buildGridPNG\<close> up to the filled canvas: the canvas, \<open>width\<close> and \<open>height\<close>.\<close>

definition gridCanvas ::
  "'img imaging \<Rightarrow> (float64 \<Rightarrow> int) \<Rightarrow> 'img list \<Rightarrow> int \<Rightarrow> int \<Rightarrow> int
     \<Rightarrow> failure + ('img canvas \<times> int \<times> int)"
where
  "gridCanvas lib plat images cols thumbPx paddingPx =
     (if length images = 0 then Inl (Error ''no images'')
      else
        (let rows = toInt plat (goCeil (fdiv (ofInt (int (length images))) (ofInt cols)));
             width = go_add (go_mul cols thumbPx) (go_mul (go_sub cols 1) paddingPx);
             height = go_add (go_mul rows thumbPx) (go_mul (go_sub rows 1) paddingPx);
             r = Rect 0 0 width height
         in if \<not> allocRGBA lib r
            then Inl (Panic ''image: NewRGBA Rectangle has huge or negative dimensions'')
            else (case drawThumbs lib images cols thumbPx paddingPx 0 \<lparr>bounds = r, drawn = []\<rparr> of
                    Inl f \<Rightarrow> Inl f
                  | Inr cv \<Rightarrow> Inr (cv, width, height))))"

definition buildGridPNG ::
  "'img imaging \<Rightarrow> (float64 \<Rightarrow> int) \<Rightarrow> 'img list \<Rightarrow> int \<Rightarrow> int \<Rightarrow> int
     \<Rightarrow> failure + (string \<times> int \<times> int)"
where
  "buildGridPNG lib plat images cols thumbPx paddingPx =
     (case gridCanvas lib plat images cols thumbPx paddingPx of
        Inl f \<Rightarrow> Inl f
      | Inr (cv, width, height) \<Rightarrow>
          (case encodePNG lib cv of
             Inl e \<Rightarrow> Inl (Error e)
           | Inr png \<Rightarrow> Inr (png, width, height)))"

text \<open>
  An image library for the examples: every allocation succeeds, an image is its bounds,
  and the encoder writes one byte per \<^verbatim>\<open>Draw\<close> call after a one-byte header.
\<close>

definition lib_sample :: "rectangle imaging" where
  "lib_sample =
     \<lparr>allocRGBA = (\<lambda>r. True), imgBounds = (\<lambda>img. img),
      encodePNG = (\<lambda>cv. Inr (CHR ''P'' # map (\<lambda>d. CHR ''x'') (drawn cv)))\<rparr>"


section \<open>Render driver (cmd/ig-cookies/main.go)\<close>

record gridOptions =
  GridCols :: int
  ThumbCols :: int
  ThumbPx :: int
  PaddingPx :: int
  PageSize :: int

text \<open>
  What \<^verbatim>\<open>renderGrid\<close> reads from outside: the environment, the library functions named
  above, the answer of \<^verbatim>\<open>term.GetSize\<close> (width and height in cells, \<open>None\<close> on error),
  the URL of an item, \<^verbatim>\<open>instagram.DownloadImage\<close> and \<^verbatim>\<open>image.Decode\<close> (\<open>Inl\<close> the
  error text), and the image library.  An item is of any type, so that two items with the
  same URL may download differently.
\<close>

record ('item, 'img) world =
  w_getenv :: "string \<Rightarrow> string"
  w_toLower :: "string \<Rightarrow> string"
  w_trimSpace :: "string \<Rightarrow> string"
  w_parseFloat :: "string \<Rightarrow> float64 option"
  w_platform :: "float64 \<Rightarrow> int"
  w_termSize :: "(int \<times> int) option"
  w_itemURL :: "'item \<Rightarrow> string"
  w_download :: "'item \<Rightarrow> string + string"
  w_decode :: "string \<Rightarrow> string + 'img"
  w_imaging :: "'img imaging"

definition Detect :: "('item, 'img) world \<Rightarrow> Protocol" where
  "Detect w = detectInline (w_toLower w) (w_trimSpace w) (w_getenv w)"

text \<open>\<^verbatim>\<open>inline.CellAspectRatio("METCLI_CELL_ASPECT", 0.5)\<close>.\<close>

definition cellAspectOf :: "('item, 'img) world \<Rightarrow> float64" where
  "cellAspectOf w =
     CellAspectRatio (w_parseFloat w) (w_trimSpace w) (w_getenv w) ''METCLI_CELL_ASPECT'' (Fin (1 / 2))"

definition autoThumbCols :: "('item, 'img) world \<Rightarrow> int \<Rightarrow> int" where
  "autoThumbCols w gridCols =
     (if gridCols \<le> 0 then 12
      else (case w_termSize w of
              None \<Rightarrow> 12
            | Some (width, height) \<Rightarrow>
                if width \<le> 0 then 12
                else (let thumbCols = go_div width gridCols
                      in if thumbCols < 6 then 6 else thumbCols)))"

definition autoPageSize ::
  "('item, 'img) world \<Rightarrow> int \<Rightarrow> int \<Rightarrow> int \<Rightarrow> float64 \<Rightarrow> int"
where
  "autoPageSize w gridCols thumbCols thumbPx aspect =
     (if gridCols \<le> 0 then 0
      else (case w_termSize w of
              None \<Rightarrow> go_mul gridCols 8
            | Some (width, rows) \<Rightarrow>
                if rows \<le> 0 then go_mul gridCols 8
                else (let thumbRows = estimateRows (w_platform w) thumbCols thumbPx thumbPx aspect
                      in if thumbRows \<le> 0 then go_mul gridCols 8
                         else (let maxTileRows = go_div rows thumbRows;
                                   maxTileRows1 = (if maxTileRows < 1 then 1 else maxTileRows)
                               in go_mul gridCols maxTileRows1))))"

definition newline :: char where
  "newline = CHR 0x0A"

text \<open>\<^verbatim>\<open>advanceCursor\<close>: \<open>rows + 1\<close> times \<^verbatim>\<open>fmt.Fprintln(out)\<close>, after \<open>rows\<close> is raised to 1.\<close>

definition advanceCursor :: "writer \<Rightarrow> int \<Rightarrow> writer" where
  "advanceCursor out rows =
     (case out of
        None \<Rightarrow> None
      | Some b \<Rightarrow>
          (let rows1 = (if rows < 1 then 1 else rows)
           in Some (b @ replicate (nat (go_add rows1 1)) newline)))"

text \<open>
  The state of a run: the bytes that reached \<^verbatim>\<open>os.Stdout\<close>, the bytes held by the
  \<^verbatim>\<open>bufio.Writer\<close> until \<^verbatim>\<open>Flush\<close>, the bytes on \<^verbatim>\<open>os.Stderr\<close>, the next Kitty image
  id, and the panic that ended the run, if one did.
\<close>

record rstate =
  stdout :: string
  buffered :: string
  stderr :: string
  nextID :: "32 word"
  panicked :: "string option"

definition flush :: "rstate \<Rightarrow> rstate" where
  "flush st = st\<lparr>stdout := stdout st @ buffered st, buffered := []\<rparr>"

definition printURLs :: "('item, 'img) world \<Rightarrow> 'item list \<Rightarrow> rstate \<Rightarrow> rstate" where
  "printURLs w items st =
     st\<lparr>stdout := stdout st @ concat (map (\<lambda>item. w_itemURL w item @ [newline]) items)\<rparr>"

text \<open>
  The inner loop of a page: download and decode each item, keep the images that succeed,
  report the others on \<^verbatim>\<open>os.Stderr\<close>.
\<close>

fun fetchImages ::
  "('item, 'img) world \<Rightarrow> 'item list \<Rightarrow> 'img list \<Rightarrow> string \<Rightarrow> 'img list \<times> string"
where
  "fetchImages w [] images err = (images, err)"
| "fetchImages w (item # rest) images err =
     (case w_download w item of
        Inl e \<Rightarrow> fetchImages w rest images (err @ ''[metcli] '' @ e @ [newline])
      | Inr data \<Rightarrow>
          (case w_decode w data of
             Inl e \<Rightarrow> fetchImages w rest images (err @ ''[metcli] decode image: '' @ e @ [newline])
           | Inr img \<Rightarrow> fetchImages w rest (images @ [img]) err))"

text \<open>
  What happened to a page, kept for the statements below (the program has no such value):
  its items, the images that were decoded, the bytes it wrote through the writer, and the
  event: no image, a compositor failure, the fallback branch of the \<^verbatim>\<open>switch\<close>, or a
  transmission with the column count given to the compositor, the size in cells, the
  bytes of the encoder and the bytes of \<^verbatim>\<open>advanceCursor\<close>.
\<close>

datatype page_event =
    NoImages
  | BuildFailed failure
  | Fallback
  | Transmitted (ev_pageCols: int) (ev_colsCells: int) (ev_rowsCells: int) (ev_frame: string) (ev_advance: string)

record ('item, 'img) page_log =
  pg_items :: "'item list"
  pg_images :: "'img list"
  pg_event :: page_event
  pg_output :: string

datatype flow = Next | Return | Crash

text \<open>
  The encoder of the page and \<^verbatim>\<open>advanceCursor\<close>, on the writer holding \<open>b\<close>: the new
  content of the writer, the bytes of the encoder and the bytes of the cursor advance.
\<close>

definition transmit ::
  "('item, 'img) world \<Rightarrow> Protocol \<Rightarrow> 32 word \<Rightarrow> string \<Rightarrow> int \<Rightarrow> int \<Rightarrow> string
     \<Rightarrow> string \<times> string \<times> string"
where
  "transmit w protocol ident gridPNG cols rows b =
     (let out1 = (if protocol = ProtocolIterm
                  then SendItermInline (w_trimSpace w) (Some b)
                         \<lparr>Name = ''instagram-grid.png'', IData = gridPNG, WidthCells = cols,
                          HeightCells = rows, Stretch = True\<rparr>
                  else SendKittyPNG (Some b) ident gridPNG cols rows);
          b1 = (case out1 of None \<Rightarrow> b | Some x \<Rightarrow> x);
          out2 = advanceCursor (Some b1) rows;
          b2 = (case out2 of None \<Rightarrow> b1 | Some x \<Rightarrow> x)
      in (b2, drop (length b) b1, drop (length b1) b2))"

text \<open>The body of the page loop, from the slice \<open>pageItems\<close> to the flush.\<close>

definition renderPage ::
  "('item, 'img) world \<Rightarrow> Protocol \<Rightarrow> int \<Rightarrow> int \<Rightarrow> int \<Rightarrow> int \<Rightarrow> 'item list \<Rightarrow> 'item list
     \<Rightarrow> rstate \<Rightarrow> flow \<times> ('item, 'img) page_log \<times> rstate"
where
  "renderPage w protocol gridCols thumbCols thumbPx paddingPx items pageItems st =
     (let (images, err) = fetchImages w pageItems [] (stderr st);
          st1 = st\<lparr>stderr := err\<rparr>
      in if length images = 0
         then (Next, \<lparr>pg_items = pageItems, pg_images = images, pg_event = NoImages,
                      pg_output = []\<rparr>, st1)
         else
           (let pageCols = (if gridCols > int (length images) then int (length images)
                            else gridCols)
            in case buildGridPNG (w_imaging w) (w_platform w) images pageCols thumbPx paddingPx of
                 Inl (Error e) \<Rightarrow>
                   (Next, \<lparr>pg_items = pageItems, pg_images = images,
                           pg_event = BuildFailed (Error e), pg_output = []\<rparr>,
                    st1\<lparr>stderr := stderr st1 @ ''[metcli] '' @ e @ [newline]\<rparr>)
               | Inl (Panic m) \<Rightarrow>
                   (Crash, \<lparr>pg_items = pageItems, pg_images = images,
                            pg_event = BuildFailed (Panic m), pg_output = []\<rparr>,
                    st1\<lparr>panicked := Some m\<rparr>)
               | Inr (gridPNG, gridWidth, gridHeight) \<Rightarrow>
                   (let colsCells = go_mul pageCols thumbCols;
                        rowsCells = estimateRows (w_platform w) colsCells gridWidth gridHeight
                                      (cellAspectOf w)
                    in if protocol = ProtocolNone
                       then (Return, \<lparr>pg_items = pageItems, pg_images = images,
                                      pg_event = Fallback, pg_output = []\<rparr>,
                             printURLs w items st1)
                       else
                         (let (b2, fr, adv) = transmit w protocol (nextID st1) gridPNG
                                                 colsCells rowsCells (buffered st1);
                              st2 = st1\<lparr>buffered := b2,
                                        nextID := (if protocol = ProtocolKitty
                                                   then nextID st1 + 1 else nextID st1)\<rparr>
                          in (Next, \<lparr>pg_items = pageItems, pg_images = images,
                                     pg_event = Transmitted pageCols colsCells rowsCells fr adv,
                                     pg_output = fr @ adv\<rparr>,
                              flush st2)))))"

text \<open>
  The page loop.  It need not end when \<open>pageSize\<close> is not positive, so it is a partial
  function: \<open>None\<close> is a run that does not return.  The slice \<^verbatim>\<open>items[start:end]\<close> panics
  unless \<open>0 \<le> start \<le> end \<le> len(items)\<close>.
\<close>

partial_function (option) pageLoop ::
  "('item, 'img) world \<Rightarrow> Protocol \<Rightarrow> int \<times> int \<times> int \<times> int \<Rightarrow> 'item list \<Rightarrow> int \<Rightarrow> int
     \<Rightarrow> rstate \<Rightarrow> ('item, 'img) page_log list
     \<Rightarrow> (rstate \<times> ('item, 'img) page_log list) option"
where
  "pageLoop w protocol cfg items pageSize start st plog =
     (if start < int (length items) then
        (let end0 = go_add start pageSize;
             end1 = (if end0 > int (length items) then int (length items) else end0)
         in if start < 0 \<or> end1 < start
            then Some (st\<lparr>panicked := Some ''runtime error: slice bounds out of range''\<rparr>, plog)
            else
              (let pageItems = take (nat (end1 - start)) (drop (nat start) items)
               in case cfg of (gridCols, thumbCols, thumbPx, paddingPx) \<Rightarrow>
                  (case renderPage w protocol gridCols thumbCols thumbPx paddingPx items pageItems st of
                     (Next, entry, st') \<Rightarrow>
                       pageLoop w protocol cfg items pageSize (go_add start pageSize) st'
                         (plog @ [entry])
                   | (Return, entry, st') \<Rightarrow> Some (st', plog @ [entry])
                   | (Crash, entry, st') \<Rightarrow> Some (st', plog @ [entry]))))
      else Some (st, plog))"

text \<open>The page size with which \<^verbatim>\<open>renderGrid\<close> enters its loop, and its other settings.\<close>

definition gridColsOf :: "gridOptions \<Rightarrow> int" where
  "gridColsOf opts = (if GridCols opts \<le> 0 then 1 else GridCols opts)"

definition thumbPxOf :: "gridOptions \<Rightarrow> int" where
  "thumbPxOf opts = (if ThumbPx opts < 64 then 64 else ThumbPx opts)"

definition paddingPxOf :: "gridOptions \<Rightarrow> int" where
  "paddingPxOf opts = (if PaddingPx opts < 0 then 0 else PaddingPx opts)"

definition thumbColsOf :: "('item, 'img) world \<Rightarrow> gridOptions \<Rightarrow> int" where
  "thumbColsOf w opts =
     (if ThumbCols opts \<le> 0 then autoThumbCols w (GridCols opts) else ThumbCols opts)"

definition pageSizeOf :: "('item, 'img) world \<Rightarrow> gridOptions \<Rightarrow> 'item list \<Rightarrow> int" where
  "pageSizeOf w opts items =
     (let pageSize0 = PageSize opts;
          pageSize1 = (if pageSize0 \<le> 0
                       then autoPageSize w (gridColsOf opts) (thumbColsOf w opts) (thumbPxOf opts)
                              (cellAspectOf w)
                       else pageSize0)
      in if pageSize1 \<le> 0 then int (length items) else pageSize1)"

definition rstate0 :: rstate where
  "rstate0 = \<lparr>stdout = [], buffered = [], stderr = [], nextID = 1, panicked = None\<rparr>"

text \<open>
  \<^verbatim>\<open>renderGrid\<close>: the final state (after the deferred \<^verbatim>\<open>Flush\<close>) and the pages in the order
  they were processed.
\<close>

definition renderGrid ::
  "('item, 'img) world \<Rightarrow> 'item list \<Rightarrow> gridOptions
     \<Rightarrow> (rstate \<times> ('item, 'img) page_log list) option"
where
  "renderGrid w items opts =
     (let protocol = Detect w in
      if protocol = ProtocolNone then Some (printURLs w items rstate0, [])
      else
        (case pageLoop w protocol
                (gridColsOf opts, thumbColsOf w opts, thumbPxOf opts, paddingPxOf opts)
                items (pageSizeOf w opts items) 0 rstate0 [] of
           None \<Rightarrow> None
         | Some (st, plog) \<Rightarrow> Some (flush st, plog)))"


subsection \<open>The pagination of the specification\<close>

text \<open>
  The number of pages \<open>ceil(n / pageSize)\<close> and page \<open>k\<close>, the items from \<open>k * pageSize\<close>
  up to \<open>min((k + 1) * pageSize, total)\<close>.
\<close>

definition pageCount :: "nat \<Rightarrow> nat \<Rightarrow> nat" where
  "pageCount n ps = (n + ps - 1) div ps"

definition pageSlice :: "'a list \<Rightarrow> nat \<Rightarrow> nat \<Rightarrow> 'a list" where
  "pageSlice items ps k =
     take (min ((k + 1) * ps) (length items) - k * ps) (drop (k * ps) items)"


subsection \<open>The grid geometry of the specification\<close>

text \<open>
  Canvas width, row count \<open>ceil(n / cols)\<close>, canvas height, and the cell of image \<open>j\<close>:
  origin \<open>((j mod cols) * (thumbPx + paddingPx), (j div cols) * (thumbPx + paddingPx))\<close>, side
  \<open>thumbPx\<close>.
\<close>

definition gridWidth :: "int \<Rightarrow> int \<Rightarrow> int \<Rightarrow> int" where
  "gridWidth cols thumbPx paddingPx = cols * thumbPx + (cols - 1) * paddingPx"

definition gridRows :: "int \<Rightarrow> int \<Rightarrow> int" where
  "gridRows n cols = (n + cols - 1) div cols"

definition gridHeight :: "int \<Rightarrow> int \<Rightarrow> int \<Rightarrow> int \<Rightarrow> int" where
  "gridHeight n cols thumbPx paddingPx =
     gridRows n cols * thumbPx + (gridRows n cols - 1) * paddingPx"

definition cellRect :: "int \<Rightarrow> int \<Rightarrow> int \<Rightarrow> int \<Rightarrow> rectangle" where
  "cellRect cols thumbPx paddingPx j =
     \<lparr>minX = (j mod cols) * (thumbPx + paddingPx),
      minY = (j div cols) * (thumbPx + paddingPx),
      maxX = (j mod cols) * (thumbPx + paddingPx) + thumbPx,
      maxY = (j div cols) * (thumbPx + paddingPx) + thumbPx\<rparr>"



text \<open>
  What \<^verbatim>\<open>strconv.ParseFloat(s, 64)\<close> returns on the strings used in the examples below
  (it accepts \<^verbatim>\<open>NaN\<close> in any letter case and returns a not-a-number without error).  The
  table answers \<open>None\<close> elsewhere; nothing is claimed of the library there.
\<close>

definition parseFloat_table :: "string \<Rightarrow> float64 option" where
  "parseFloat_table s =
     (if s = ''NaN'' then Some NaN
      else if s = ''3.0'' then Some (Fin 3)
      else if s = ''1.5'' then Some (Fin (3 / 2))
      else None)"

definition env_cell_aspect :: "string \<Rightarrow> string \<Rightarrow> string" where
  "env_cell_aspect v = env_of [(''METCLI_CELL_ASPECT'', v)]"


subsection \<open>A sample run\<close>

text \<open>
  Items are numbers.  The terminal is Kitty, its size unknown; the download of item 0
  fails, every other item downloads and decodes to a 640 by 480 image.
\<close>

definition sample_image :: rectangle where
  "sample_image = \<lparr>minX = 0, minY = 0, maxX = 640, maxY = 480\<rparr>"

definition w_sample :: "string \<Rightarrow> (nat, rectangle) world" where
  "w_sample aspect =
     \<lparr>w_getenv = env_of [(''METCLI_INLINE'', ''kitty''), (''METCLI_CELL_ASPECT'', aspect)],
      w_toLower = asciiToLower, w_trimSpace = asciiTrimSpace,
      w_parseFloat = parseFloat_table, w_platform = plat_amd64, w_termSize = None,
      w_itemURL = (\<lambda>i. ''https://example.test/'' @ showNat i),
      w_download = (\<lambda>i. if i = 0 then Inl ''timeout'' else Inr ''data''),
      w_decode = (\<lambda>d. Inr sample_image),
      w_imaging = lib_sample\<rparr>"

definition opts_sample :: gridOptions where
  "opts_sample = \<lparr>GridCols = 2, ThumbCols = 12, ThumbPx = 64, PaddingPx = 0, PageSize = 2\<rparr>"

definition opts_single :: gridOptions where
  "opts_single = \<lparr>GridCols = 2, ThumbCols = 12, ThumbPx = 64, PaddingPx = 0, PageSize = 1\<rparr>"


text \<open>Views of a run: the item slices of its pages, and per page what the statements need.\<close>

definition pages_of :: "(rstate \<times> ('item, 'img) page_log list) option \<Rightarrow> 'item list list" where
  "pages_of r = (case r of None \<Rightarrow> [] | Some (st, plog) \<Rightarrow> map pg_items plog)"


text \<open>
  The images of a page as the specification has them: the items that download and decode,
  in order.
\<close>

definition fetched :: "('item, 'img) world \<Rightarrow> 'item list \<Rightarrow> 'img list" where
  "fetched w xs =
     concat (map (\<lambda>x. case w_download w x of
                          Inl e \<Rightarrow> []
                        | Inr d \<Rightarrow> (case w_decode w d of Inl e \<Rightarrow> [] | Inr img \<Rightarrow> [img])) xs)"

definition skipped_of :: "(rstate \<times> ('item, 'img) page_log list) option \<Rightarrow> bool list" where
  "skipped_of r =
     (case r of
        None \<Rightarrow> []
      | Some (st, plog) \<Rightarrow> map (\<lambda>e. pg_event e = NoImages \<and> pg_output e = []) plog)"


text \<open>Per transmitted page: the row height in cells and the number of newlines written after it.\<close>

definition advances_of ::
  "(rstate \<times> ('item, 'img) page_log list) option \<Rightarrow> (int \<times> nat) option list"
where
  "advances_of r =
     (case r of
        None \<Rightarrow> []
      | Some (st, plog) \<Rightarrow>
          map (\<lambda>e. case pg_event e of
                      Transmitted c cc rs fr adv \<Rightarrow> Some (rs, length (filter (\<lambda>ch. ch = newline) adv))
                    | _ \<Rightarrow> None) plog)"


section \<open>Theorems\<close>

text \<open>
  C1, as stated, at a concrete environment: the override is unset, \<^verbatim>\<open>KITTY_WINDOW_ID\<close>
  is the one-blank string (non-empty), and the rule list of the claim answers Kitty; the
  code trims the value first and, finding nothing else, answers None.
\<close>

theorem C1_blank_window_id_counterexample:
  "env_blank_window_id ''METCLI_INLINE'' = '''' \<and>
   env_blank_window_id ''KITTY_WINDOW_ID'' \<noteq> '''' \<and>
   detect_rules asciiToLower asciiToLower nonEmpty env_blank_window_id = ProtocolKitty \<and>
   detectInline asciiToLower asciiTrimSpace env_blank_window_id = ProtocolNone"
  by (simp add: env_blank_window_id_def detect_rules_def rule_override_def rule_window_id_def
      nonEmpty_def detectInline_def asciiToLower_def asciiTrimSpace_def asciiSpace_def)

text \<open>
  C1 (amended): for every environment, and whatever \<^verbatim>\<open>strings.ToLower\<close> and
  \<^verbatim>\<open>strings.TrimSpace\<close> compute, \<open>detectInline\<close> returns the protocol of the ordered rule
  list, where the override is trimmed before it is lower-cased and compared, and
  \<^verbatim>\<open>KITTY_WINDOW_ID\<close> and \<^verbatim>\<open>ITERM_SESSION_ID\<close> count as set when they are non-empty
  after trimming.  The second conjunct is the precedence case of the claim: an override
  that normalises to \<^verbatim>\<open>none\<close> gives None whatever the other variables hold.
\<close>

theorem C1_detectInline_rule_list:
  "detectInline lower trim getenv =
     detect_rules lower (lowerTrimmed lower trim) (trimmedNonEmpty trim) getenv
   \<and> (lower (trim (getenv ''METCLI_INLINE'')) = ''none''
      \<longrightarrow> detectInline lower trim getenv = ProtocolNone)"
  by (simp add: detectInline_def detect_rules_def rule_override_def rule_window_id_def
      rule_term_program_def rule_term_def lowerTrimmed_def trimmedNonEmpty_def Let_def)

theorem C1_detectInline_rule_list_witness:
  "asciiToLower (asciiTrimSpace (env_window_id_override_none ''METCLI_INLINE'')) = ''none''
   \<and> env_window_id_override_none ''KITTY_WINDOW_ID'' = ''42''
   \<and> detectInline asciiToLower asciiTrimSpace env_window_id_override_none = ProtocolNone
   \<and> detect_rules asciiToLower (lowerTrimmed asciiToLower asciiTrimSpace)
        (trimmedNonEmpty asciiTrimSpace) env_window_id_override_none = ProtocolNone"
proof -
  have h: "asciiToLower (asciiTrimSpace (env_window_id_override_none ''METCLI_INLINE'')) = ''none''"
    by code_simp
  have k: "env_window_id_override_none ''KITTY_WINDOW_ID'' = ''42''"
    by (simp add: env_window_id_override_none_def)
  note inst = C1_detectInline_rule_list [of asciiToLower asciiTrimSpace env_window_id_override_none]
  from inst h have r: "detectInline asciiToLower asciiTrimSpace env_window_id_override_none = ProtocolNone"
    by blast
  from inst r have "detect_rules asciiToLower (lowerTrimmed asciiToLower asciiTrimSpace)
        (trimmedNonEmpty asciiTrimSpace) env_window_id_override_none = ProtocolNone"
    by metis
  with h k r show ?thesis by blast
qed

subsection \<open>Rounding to binary64\<close>

lemma pow2_powi: "pow2 e = 2 powi e"
  by (simp add: pow2_def power_int_def inverse_eq_divide power_one_over)

lemma pow2_pos: "0 < pow2 e"
  by (simp add: pow2_powi)

lemma pow2_add: "pow2 (a + b) = pow2 a * pow2 b"
  by (simp add: pow2_powi power_int_add)

lemma pow2_diff: "pow2 (a - b) = pow2 a / pow2 b"
  by (simp add: pow2_powi power_int_diff)

lemma pow2_mono: "a \<le> b \<Longrightarrow> pow2 a \<le> pow2 b"
  by (simp add: pow2_powi power_int_increasing)

lemma pow2_nat: "0 \<le> e \<Longrightarrow> pow2 e = of_int (2 ^ nat e)"
  by (simp add: pow2_def)

lemma pow2_0: "pow2 0 = 1"
  by (simp add: pow2_def)

lemma ilog2_bounds:
  assumes "0 < a"
  shows "pow2 (ilog2 a) \<le> a \<and> a < pow2 (ilog2 a + 1)"
proof (cases "1 \<le> a")
  case True
  define n where "n = \<lfloor>a\<rfloor>"
  have n1: "1 \<le> n" using True by (simp add: n_def le_floor_iff)
  then have npos: "0 < n" by simp
  have b1: "1 \<le> bitlen n" using npos by (simp add: bitlen_alt_def)
  from bitlen_bounds [OF npos]
  have lo: "2 ^ nat (bitlen n - 1) \<le> n" and hi: "n < 2 ^ nat (bitlen n)" by simp_all
  have e: "ilog2 a = bitlen n - 1" using True by (simp add: ilog2_def n_def)
  have "pow2 (bitlen n - 1) = of_int (2 ^ nat (bitlen n - 1))"
    using b1 by (simp add: pow2_nat)
  also have "\<dots> \<le> of_int n" using lo by (simp only: of_int_le_iff)
  also have "\<dots> \<le> a" by (simp add: n_def)
  finally have A: "pow2 (ilog2 a) \<le> a" by (simp add: e)
  have "n + 1 \<le> 2 ^ nat (bitlen n)" using hi by simp
  then have "(of_int (n + 1) :: rat) \<le> of_int (2 ^ nat (bitlen n))" by (simp only: of_int_le_iff)
  moreover have "a < of_int (n + 1)" unfolding n_def by simp linarith
  moreover have "pow2 (bitlen n) = of_int (2 ^ nat (bitlen n))"
    using b1 by (simp add: pow2_nat)
  ultimately have B: "a < pow2 (ilog2 a + 1)" by (simp add: e)
  from A B show ?thesis ..
next
  case False
  define t where "t = 1 / a"
  have t1: "1 < t" using False assms by (simp add: t_def)
  define n where "n = \<lceil>t\<rceil> - 1"
  have n1: "1 \<le> n" using t1 by (simp add: n_def less_ceiling_iff)
  then have npos: "0 < n" by simp
  have b1: "1 \<le> bitlen n" using npos by (simp add: bitlen_alt_def)
  from bitlen_bounds [OF npos]
  have lo: "2 ^ nat (bitlen n - 1) \<le> n" and hi: "n < 2 ^ nat (bitlen n)" by simp_all
  have e: "ilog2 a = - bitlen n" using False by (simp add: ilog2_def n_def t_def)
  have nt: "of_int n < t" by (simp add: n_def) linarith
  have tn: "t \<le> of_int (n + 1)" by (simp add: n_def)
  have "n + 1 \<le> 2 ^ nat (bitlen n)" using hi by simp
  then have "(of_int (n + 1) :: rat) \<le> of_int (2 ^ nat (bitlen n))" by (simp only: of_int_le_iff)
  with tn have "t \<le> of_int (2 ^ nat (bitlen n))" by linarith
  also have "\<dots> = pow2 (bitlen n)" using b1 by (simp add: pow2_nat)
  finally have tle: "t \<le> pow2 (bitlen n)" .
  have "pow2 (bitlen n - 1) = of_int (2 ^ nat (bitlen n - 1))"
    using b1 by (simp add: pow2_nat)
  also have "\<dots> \<le> of_int n" using lo by (simp only: of_int_le_iff)
  finally have tgt: "pow2 (bitlen n - 1) < t" using nt by linarith
  have a_eq: "a = 1 / t" using assms by (simp add: t_def)
  have "pow2 (- bitlen n) = 1 / pow2 (bitlen n)"
    using pow2_diff [of 0 "bitlen n"] by (simp add: pow2_0)
  also have "\<dots> \<le> 1 / t" using tle t1 by (simp add: frac_le)
  also have "\<dots> = a" by (simp add: a_eq)
  finally have A: "pow2 (ilog2 a) \<le> a" unfolding e .
  have "a = 1 / t" by (rule a_eq)
  also have "\<dots> < 1 / pow2 (bitlen n - 1)"
    using tgt pow2_pos [of "bitlen n - 1"] by (simp add: frac_less2)
  also have "\<dots> = pow2 (- bitlen n + 1)"
    using pow2_diff [of 0 "bitlen n - 1"] by (simp add: pow2_0)
  finally have B: "a < pow2 (ilog2 a + 1)" unfolding e .
  from A B show ?thesis ..
qed

lemma roundHalfEven_err: "\<bar>of_int (roundHalfEven x) - x\<bar> \<le> 1 / 2"
  unfolding roundHalfEven_def Let_def by (auto simp: abs_if) linarith+

lemma roundHalfEven_int: "roundHalfEven (of_int n) = n"
  by (simp add: roundHalfEven_def)

lemma roundHalfEven_le: "x \<le> of_int n \<Longrightarrow> roundHalfEven x \<le> n"
  unfolding roundHalfEven_def Let_def
  by (auto simp: floor_le_iff) (linarith+)?

lemma roundHalfEven_ge: "of_int n \<le> x \<Longrightarrow> n \<le> roundHalfEven x"
  unfolding roundHalfEven_def Let_def
  by (auto simp: le_floor_iff) (linarith+)?

lemma pow2_strict_mono: "a < b \<Longrightarrow> pow2 a < pow2 b"
  by (simp add: pow2_powi power_int_strict_increasing)

lemma pow2_le_iff: "pow2 a \<le> pow2 b \<longleftrightarrow> a \<le> b"
  using pow2_mono [of a b] pow2_strict_mono [of b a] by (auto simp: not_less [symmetric])

lemma pow2_less_iff: "pow2 a < pow2 b \<longleftrightarrow> a < b"
  using pow2_mono [of b a] pow2_strict_mono [of a b] by (auto simp: not_le [symmetric])

lemma ilog2_range:
  assumes "0 < a" "pow2 lo \<le> a" "a < pow2 hi"
  shows "lo \<le> ilog2 a \<and> ilog2 a < hi"
proof -
  from ilog2_bounds [OF assms(1)]
  have l: "pow2 (ilog2 a) \<le> a" and h: "a < pow2 (ilog2 a + 1)" by simp_all
  from assms(2) h have "pow2 lo < pow2 (ilog2 a + 1)" by linarith
  then have 1: "lo \<le> ilog2 a" by (simp add: pow2_less_iff)
  from l assms(3) have "pow2 (ilog2 a) < pow2 hi" by linarith
  then have 2: "ilog2 a < hi" by (simp add: pow2_less_iff)
  from 1 2 show ?thesis ..
qed

lemma round64_grid:
  assumes "0 < a" "ilog2 a \<le> 1022"
  defines "q \<equiv> pow2 (max (ilog2 a) (- 1022) - 52)"
  shows "\<exists>v. round64 a = Fin v \<and> \<bar>v - a\<bar> \<le> q / 2
           \<and> (\<forall>n. a \<le> of_int n * q \<longrightarrow> v \<le> of_int n * q)
           \<and> (\<forall>n. of_int n * q \<le> a \<longrightarrow> of_int n * q \<le> v)"
proof -
  define m where "m = roundHalfEven (a / q)"
  have qpos: "0 < q" by (simp add: q_def pow2_pos)
  have r: "round64 a = Fin (of_int m * q)"
    using assms(1,2) by (simp add: round64_def Let_def m_def q_def)
  have "\<bar>of_int m - a / q\<bar> \<le> 1 / 2" unfolding m_def by (rule roundHalfEven_err)
  then have "\<bar>of_int m - a / q\<bar> * q \<le> 1 / 2 * q"
    using qpos by (simp only: mult_le_cancel_right_pos)
  moreover have "\<bar>of_int m - a / q\<bar> * q = \<bar>of_int m * q - a\<bar>"
    using qpos by (simp add: abs_mult [symmetric, of _ q, simplified] left_diff_distrib abs_mult_pos)
  ultimately have err: "\<bar>of_int m * q - a\<bar> \<le> q / 2" by simp
  have up: "of_int m * q \<le> of_int n * q" if "a \<le> of_int n * q" for n
  proof -
    from that qpos have "a / q \<le> of_int n" by (simp add: pos_divide_le_eq)
    then have "m \<le> n" unfolding m_def by (rule roundHalfEven_le)
    then have "(of_int m :: rat) \<le> of_int n" by simp
    with qpos show ?thesis by (simp only: mult_le_cancel_right_pos)
  qed
  have dn: "of_int n * q \<le> of_int m * q" if "of_int n * q \<le> a" for n
  proof -
    from that qpos have "of_int n \<le> a / q" by (simp add: pos_le_divide_eq)
    then have "n \<le> m" unfolding m_def by (rule roundHalfEven_ge)
    then have "(of_int n :: rat) \<le> of_int m" by simp
    with qpos show ?thesis by (simp only: mult_le_cancel_right_pos)
  qed
  from r err up dn show ?thesis by blast
qed

text \<open>A multiple of \<open>2^j\<close> with a significand below \<open>2^53\<close> is a binary64 value.\<close>

lemma round64_exact:
  assumes "0 < n" "n < 2 ^ 53" "- 1074 \<le> j" "j \<le> 970"
  shows "round64 (of_int n * pow2 j) = Fin (of_int n * pow2 j)"
proof -
  define a where "a = of_int n * pow2 j"
  have apos: "0 < a" using assms(1) pow2_pos [of j] by (simp add: a_def)
  have "a < of_int (2 ^ 53) * pow2 j"
    unfolding a_def using assms(2) pow2_pos [of j] by (simp only: mult_less_cancel_right_pos of_int_less_iff)
  also have "\<dots> = pow2 (53 + j)" by (simp add: pow2_add pow2_nat)
  finally have ahi: "a < pow2 (53 + j)" .
  have "pow2 j \<le> a"
    unfolding a_def using assms(1) pow2_pos [of j] by (simp add: mult_le_cancel_right1)
  with ilog2_range [OF apos _ ahi, of j] have e: "j \<le> ilog2 a" "ilog2 a < 53 + j" by simp_all
  then have e1022: "ilog2 a \<le> 1022" using assms(4) by simp
  define q where "q = pow2 (max (ilog2 a) (- 1022) - 52)"
  define d where "d = j - (max (ilog2 a) (- 1022) - 52)"
  have d0: "0 \<le> d" using e assms(3) by (simp add: d_def max_def)
  have "pow2 j = pow2 d * q" by (simp add: q_def d_def pow2_add [symmetric])
  then have mult: "a = of_int (n * 2 ^ nat d) * q"
    using d0 by (simp add: a_def pow2_nat)
  from round64_grid [OF apos e1022] obtain v where
    v: "round64 a = Fin v"
    and up: "\<And>n. a \<le> of_int n * q \<Longrightarrow> v \<le> of_int n * q"
    and dn: "\<And>n. of_int n * q \<le> a \<Longrightarrow> of_int n * q \<le> v"
    unfolding q_def by blast
  from up [of "n * 2 ^ nat d"] dn [of "n * 2 ^ nat d"] mult have "v = a" by simp
  with v show ?thesis by (simp add: a_def)
qed

lemma ofInt_pos: "0 < n \<Longrightarrow> n < 2 ^ 53 \<Longrightarrow> ofInt n = Fin (of_int n)"
  using round64_exact [of n 0] by (simp add: ofInt_def pow2_0)

lemma round64_le_pow2:
  assumes "0 < a" "a \<le> pow2 k" "- 1022 \<le> k" "k \<le> 1022"
  shows "\<exists>v. round64 a = Fin v \<and> 0 \<le> v \<and> v \<le> pow2 k"
proof -
  from ilog2_bounds [OF assms(1)] assms(2) have "pow2 (ilog2 a) \<le> pow2 k" by linarith
  then have ek: "ilog2 a \<le> k" by (simp add: pow2_le_iff)
  then have e1022: "ilog2 a \<le> 1022" using assms(4) by simp
  define q where "q = pow2 (max (ilog2 a) (- 1022) - 52)"
  define d where "d = k - (max (ilog2 a) (- 1022) - 52)"
  have d0: "0 \<le> d" using ek assms(3) by (simp add: d_def max_def)
  have "pow2 k = pow2 d * q" by (simp add: q_def d_def pow2_add [symmetric])
  then have mult: "pow2 k = of_int (2 ^ nat d) * q"
    using d0 by (simp add: pow2_nat)
  from round64_grid [OF assms(1) e1022] obtain v where
    v: "round64 a = Fin v"
    and up: "\<And>n. a \<le> of_int n * q \<Longrightarrow> v \<le> of_int n * q"
    and dn: "\<And>n. of_int n * q \<le> a \<Longrightarrow> of_int n * q \<le> v"
    unfolding q_def by blast
  from up [of "2 ^ nat d"] assms(2) mult have 1: "v \<le> pow2 k" by simp
  from dn [of 0] assms(1) have 2: "0 \<le> v" by simp
  from v 1 2 show ?thesis by blast
qed


subsection \<open>Kitty chunking\<close>

lemma ceil_div_0: "((n::nat) + 4095) div 4096 = 0 \<longleftrightarrow> n = 0"
  by (simp add: div_eq_0_iff)

lemma ceil_div_step:
  assumes "(n::nat) \<noteq> 0"
  shows "(n + 4095) div 4096 = Suc ((n - 4096 + 4095) div 4096)"
proof (cases "n \<le> 4096")
  case True
  with assms have "(n + 4095) div 4096 = 1"
    by (intro div_nat_eqI) simp_all
  with True show ?thesis by simp
next
  case False
  then obtain m where m: "n = m + 4096"
    by (metis add.commute le_add_diff_inverse nat_le_linear)
  show ?thesis unfolding m by simp
qed

lemma nchunks_0: "nchunks enc = 0 \<longleftrightarrow> enc = []"
  by (simp add: nchunks_def ceil_div_0)

lemma nchunks_drop: "enc \<noteq> [] \<Longrightarrow> nchunks enc = Suc (nchunks (drop 4096 enc))"
  by (simp add: nchunks_def ceil_div_step)

declare sendKittyLoop.simps [simp del]

lemma sendKittyLoop_Nil: "sendKittyLoop d first [] out = out"
  by (subst sendKittyLoop.simps) simp

lemma sendKittyLoop_step:
  assumes "encoded \<noteq> []"
  shows "sendKittyLoop d first encoded out =
     sendKittyLoop d False (drop 4096 encoded)
       (out @ [ESC] @ ''_G''
            @ (if first then joinWith '','' (firstParams d (if drop 4096 encoded = [] then 0 else 1))
               else ''m='' @ showInt (if drop 4096 encoded = [] then 0 else 1))
            @ '';'' @ take 4096 encoded @ ST)"
proof -
  have ch: "(if length encoded > chunkSize then take chunkSize encoded else encoded) = take 4096 encoded"
    by (simp add: chunkSize_def)
  have dr: "drop (length (take 4096 encoded)) encoded = drop 4096 encoded"
    by (cases "length encoded \<le> 4096") (auto simp: min_def)
  show ?thesis
    using assms
    by (subst sendKittyLoop.simps) (simp only: ch dr Let_def, auto)
qed

lemma loop_frames:
  "sendKittyLoop d first enc out = out @ concat (map frameBytes (loopFrames d first (nchunks enc) enc))"
proof (induction "length enc" arbitrary: enc first out rule: less_induct)
  case less
  show ?case
  proof (cases "enc = []")
    case True
    then show ?thesis by (simp add: nchunks_def sendKittyLoop_Nil)
  next
    case False
    have n: "nchunks enc = Suc (nchunks (drop 4096 enc))"
      using False by (rule nchunks_drop)
    have lt: "length (drop 4096 enc) < length enc"
      using False by simp
    show ?thesis
      by (simp only: sendKittyLoop_step [OF False] less [OF lt] n)
         (simp add: frameBytes_def nchunks_0)
  qed
qed














text \<open>
  C10: with a nil writer both encoders return at once (there is no stream to write to), and
  with an empty payload they leave the writer's bytes as they were.
\<close>

theorem C10_degenerate_input_writes_nothing:
  "SendKittyPNG None ident png cols rows = None
   \<and> SendKittyPNG (Some w) ident [] cols rows = Some w
   \<and> SendItermInline trim None f = None
   \<and> SendItermInline trim (Some w) (f\<lparr>IData := []\<rparr>) = Some w"
  by (simp add: SendKittyPNG_def SendItermInline_def)


subsection \<open>Row estimate\<close>

lemma round64_0: "round64 0 = Fin 0"
  by (simp add: round64_def)

lemma round64_le_pow2_0:
  assumes "0 \<le> a" "a \<le> pow2 k" "- 1022 \<le> k" "k \<le> 1022"
  shows "\<exists>v. round64 a = Fin v \<and> 0 \<le> v \<and> v \<le> pow2 k"
proof (cases "a = 0")
  case True
  then show ?thesis using pow2_pos [of k] by (simp add: round64_0 less_imp_le)
next
  case False
  with assms(1) have "0 < a" by simp
  then show ?thesis using assms(2-4) by (rule round64_le_pow2)
qed

lemma floor_three_halves: "\<lfloor>(3 :: rat) / 2\<rfloor> = 1"
  by (rule floor_unique) simp_all

lemma round64_half: "round64 (1 / 2) = Fin (1 / 2)"
  using round64_exact [of 1 "- 1"] by (simp add: pow2_def)

lemma round64_5: "round64 5 = Fin 5"
  using round64_exact [of 5 0] by (simp add: pow2_def)

lemma round64_5_half: "round64 (5 / 2) = Fin (5 / 2)"
  using round64_exact [of 5 "- 1"] by (simp add: pow2_def)

lemma estimateRows_10_1000_500: "estimateRows plat 10 1000 500 (Fin (1 / 2)) = 3"
proof -
  have "fdiv (ofInt 500) (ofInt 1000) = Fin (1 / 2)"
    by (simp add: ofInt_pos round64_half)
  moreover have "fmul (ofInt 10) (Fin (1 / 2)) = Fin 5"
    by (simp add: ofInt_pos round64_5)
  moreover have "fmul (Fin 5) (Fin (1 / 2)) = Fin (5 / 2)"
    by (simp add: round64_5_half)
  moreover have "\<lfloor>(3 :: rat)\<rfloor> = 3" by simp
  ultimately show ?thesis
    by (simp add: estimateRows_def toInt_def)
qed

lemma estimateRows_1_1000_10: "estimateRows plat 1 1000 10 (Fin (1 / 2)) = 1"
proof -
  have d: "fdiv (ofInt 10) (ofInt 1000) = round64 (1 / 100)"
    by (simp add: ofInt_pos)
  from round64_le_pow2_0 [of "1 / 100" 0] obtain v where
    v: "round64 (1 / 100) = Fin v" "0 \<le> v" "v \<le> 1" by (auto simp: pow2_0)
  from round64_le_pow2_0 [of v 0] v obtain u where
    u: "round64 v = Fin u" "0 \<le> u" "u \<le> 1" by (auto simp: pow2_0)
  from round64_le_pow2_0 [of "u * (1 / 2)" "- 1"] u obtain t where
    t: "round64 (u * (1 / 2)) = Fin t" "0 \<le> t" "t \<le> 1 / 2" by (auto simp: pow2_def)
  have "fmul (fmul (ofInt 1) (fdiv (ofInt 10) (ofInt 1000))) (Fin (1 / 2)) = Fin t"
    using v u t by (simp add: d ofInt_pos)
  moreover have "flt (Fin t) (Fin 1)" using t by simp
  ultimately show ?thesis
    by (simp add: estimateRows_def toInt_def floor_three_halves)
qed

lemma product_10_1000_500:
  "fmul (fmul (ofInt 10) (fdiv (ofInt 500) (ofInt 1000))) (Fin (1 / 2)) = Fin (5 / 2)"
  by (simp add: ofInt_pos round64_half round64_5 round64_5_half)

text \<open>
  C5, as stated, at its own example: the product is 2.5 exactly and \<^verbatim>\<open>math.Round\<close> rounds
  halves away from zero, so the result is 3 and not 2.
\<close>

theorem C5_round_half_counterexample:
  "fmul (fmul (ofInt 10) (fdiv (ofInt 500) (ofInt 1000))) (Fin (1 / 2)) = Fin (5 / 2)
   \<and> estimateRows plat_amd64 10 1000 500 (Fin (1 / 2)) = 3
   \<and> estimateRows plat_amd64 10 1000 500 (Fin (1 / 2)) \<noteq> 2"
  by (simp add: product_10_1000_500 estimateRows_10_1000_500)

text \<open>
  C5 (amended): \<open>estimateRows\<close> returns 0 when a dimension is not positive.  Otherwise,
  with \<open>r\<close> the binary64 product \<^verbatim>\<open>float64(colsCells) * (float64(heightPx) /
  float64(widthPx)) * cellAspect\<close>, it returns 1 when \<open>r < 1\<close> and, when \<open>r \<ge> 1\<close> fits an
  \<^verbatim>\<open>int\<close>, the integer nearest to \<open>r\<close> with halves rounded up, which is at least 1.  The
  function of cmd/ig-profile is the same computation with the ratio of the environment.
  At (10, 1000, 500, 0.5) the result is 3; at (1, 1000, 10, 0.5) it is 1.
\<close>

theorem C5_estimateRows:
  "((colsCells \<le> 0 \<or> widthPx \<le> 0 \<or> heightPx \<le> 0) \<longrightarrow>
        estimateRows plat colsCells widthPx heightPx cellAspect = 0)
   \<and> (0 < colsCells \<and> 0 < widthPx \<and> 0 < heightPx \<longrightarrow>
        (\<forall>r. fmul (fmul (ofInt colsCells) (fdiv (ofInt heightPx) (ofInt widthPx))) cellAspect = Fin r
           \<longrightarrow> (r < 1 \<longrightarrow> estimateRows plat colsCells widthPx heightPx cellAspect = 1)
             \<and> (1 \<le> r \<and> r + 1 / 2 < 2 ^ 63 \<longrightarrow>
                  estimateRows plat colsCells widthPx heightPx cellAspect = \<lfloor>r + 1 / 2\<rfloor>
                  \<and> 1 \<le> estimateRows plat colsCells widthPx heightPx cellAspect)))
   \<and> estimateRows_profile plat parseFloat trim getenv colsCells widthPx heightPx
        = estimateRows plat colsCells widthPx heightPx (cellAspectRatio parseFloat trim getenv)
   \<and> estimateRows plat 10 1000 500 (Fin (1 / 2)) = 3
   \<and> estimateRows plat 1 1000 10 (Fin (1 / 2)) = 1"
proof -
  have zero: "estimateRows plat colsCells widthPx heightPx cellAspect = 0"
    if "colsCells \<le> 0 \<or> widthPx \<le> 0 \<or> heightPx \<le> 0"
    using that by (simp add: estimateRows_def)
  have small: "estimateRows plat colsCells widthPx heightPx cellAspect = 1"
    if "0 < colsCells \<and> 0 < widthPx \<and> 0 < heightPx"
      "fmul (fmul (ofInt colsCells) (fdiv (ofInt heightPx) (ofInt widthPx))) cellAspect = Fin r"
      "r < 1" for r
    using that by (simp add: estimateRows_def toInt_def floor_three_halves)
  have big: "estimateRows plat colsCells widthPx heightPx cellAspect = \<lfloor>r + 1 / 2\<rfloor>
             \<and> 1 \<le> estimateRows plat colsCells widthPx heightPx cellAspect"
    if "0 < colsCells \<and> 0 < widthPx \<and> 0 < heightPx"
      "fmul (fmul (ofInt colsCells) (fdiv (ofInt heightPx) (ofInt widthPx))) cellAspect = Fin r"
      "1 \<le> r \<and> r + 1 / 2 < 2 ^ 63" for r
  proof -
    have f1: "1 \<le> \<lfloor>r + 1 / 2\<rfloor>" using that(3) by (simp add: le_floor_iff)
    have "\<lfloor>r + 1 / 2\<rfloor> < 2 ^ 63"
      using that(3) by (simp add: floor_less_iff)
    with f1 that show ?thesis
      by (simp add: estimateRows_def toInt_def Let_def)
  qed
  have prof: "estimateRows_profile plat parseFloat trim getenv colsCells widthPx heightPx
        = estimateRows plat colsCells widthPx heightPx (cellAspectRatio parseFloat trim getenv)"
    by (simp add: estimateRows_profile_def estimateRows_def)
  from zero small big prof estimateRows_10_1000_500 estimateRows_1_1000_10
  show ?thesis by blast
qed

theorem C5_estimateRows_witness:
  "estimateRows plat_amd64 0 1000 500 (Fin (1 / 2)) = 0
   \<and> fmul (fmul (ofInt 10) (fdiv (ofInt 500) (ofInt 1000))) (Fin (1 / 2)) = Fin (5 / 2)
   \<and> estimateRows plat_amd64 10 1000 500 (Fin (1 / 2)) = \<lfloor>(5 :: rat) / 2 + 1 / 2\<rfloor>
   \<and> 1 \<le> estimateRows plat_amd64 10 1000 500 (Fin (1 / 2))"
proof -
  have z: "estimateRows plat_amd64 0 1000 500 (Fin (1 / 2)) = 0"
    using C5_estimateRows [of 0 1000 500 plat_amd64 "Fin (1 / 2)"] by simp
  have h: "(1 :: rat) \<le> 5 / 2 \<and> (5 :: rat) / 2 + 1 / 2 < 2 ^ 63" by simp
  have p: "(0 :: int) < 10 \<and> (0 :: int) < 1000 \<and> (0 :: int) < 500" by simp
  from C5_estimateRows [of 10 1000 500 plat_amd64 "Fin (1 / 2)"] p product_10_1000_500 h
  have "estimateRows plat_amd64 10 1000 500 (Fin (1 / 2)) = \<lfloor>(5 :: rat) / 2 + 1 / 2\<rfloor>
        \<and> 1 \<le> estimateRows plat_amd64 10 1000 500 (Fin (1 / 2))"
    by blast
  with z product_10_1000_500 show ?thesis by blast
qed

subsection \<open>Cell aspect ratio\<close>

lemma round64_tenth: "round64 (1 / 10) = Fin (3602879701896397 / 36028797018963968)"
  by code_simp

text \<open>
  What \<open>CellAspectRatio\<close> can return: the default, a number between the binary64 tenth
  and 2, or a not-a-number, which passes both comparisons of the range check.
\<close>

lemma CellAspectRatio_cases:
  "CellAspectRatio parseFloat trim getenv envKey d = d
   \<or> CellAspectRatio parseFloat trim getenv envKey d = NaN
   \<or> (\<exists>r. CellAspectRatio parseFloat trim getenv envKey d = Fin r
          \<and> 3602879701896397 / 36028797018963968 \<le> r \<and> r \<le> 2)"
proof (cases "parseFloat (trim (getenv envKey))")
  case None
  then show ?thesis by (simp add: CellAspectRatio_def Let_def)
next
  case (Some v)
  then show ?thesis
    by (cases v) (auto simp: CellAspectRatio_def round64_tenth Let_def)
qed

text \<open>
  C8 at \<^verbatim>\<open>METCLI_CELL_ASPECT=NaN\<close>: the value parses, is not in [0.1, 2.0], and is returned
  instead of the default 0.5, because \<^verbatim>\<open>value < 0.1 || value > 2\<close> is false for a
  not-a-number.  The value \<^verbatim>\<open>3.0\<close> does fall back to 0.5, and \<^verbatim>\<open>1.5\<close> is returned.
\<close>

theorem C8_CellAspectRatio_nan:
  "CellAspectRatio parseFloat_table asciiTrimSpace (env_cell_aspect ''NaN'')
      ''METCLI_CELL_ASPECT'' (Fin (1 / 2)) = NaN
   \<and> CellAspectRatio parseFloat_table asciiTrimSpace (env_cell_aspect ''3.0'')
      ''METCLI_CELL_ASPECT'' (Fin (1 / 2)) = Fin (1 / 2)
   \<and> CellAspectRatio parseFloat_table asciiTrimSpace (env_cell_aspect ''1.5'')
      ''METCLI_CELL_ASPECT'' (Fin (1 / 2)) = Fin (3 / 2)"
  by (simp add: CellAspectRatio_def parseFloat_table_def env_cell_aspect_def
      asciiTrimSpace_def asciiSpace_def round64_tenth)


subsection \<open>Grid canvas\<close>

lemma wrap64_id: "- (2 ^ 63) \<le> x \<Longrightarrow> x < 2 ^ 63 \<Longrightarrow> wrap64 x = x"
  by (simp add: wrap64_def)

lemma go_div_nonneg: "0 \<le> a \<Longrightarrow> a < 2 ^ 63 \<Longrightarrow> 0 < b \<Longrightarrow> go_div a b = a div b"
proof -
  assume a: "0 \<le> a" "a < 2 ^ 63" and b: "0 < b"
  have "a div b \<le> a div 1" using a(1) b by (intro zdiv_mono2) simp_all
  then have "a div b \<le> a" by simp
  moreover have "0 \<le> a div b" using a(1) b by (simp add: pos_imp_zdiv_nonneg_iff)
  ultimately have "wrap64 (a div b) = a div b" using a(2) by (intro wrap64_id) simp_all
  moreover have "sgn a * sgn b * (\<bar>a\<bar> div \<bar>b\<bar>) = a div b"
    using a(1) b by (cases "a = 0") (simp_all add: sgn_if)
  ultimately show ?thesis by (simp add: go_div_def)
qed

lemma go_mod_nonneg: "0 \<le> a \<Longrightarrow> 0 < b \<Longrightarrow> go_mod a b = a mod b"
  by (cases "a = 0") (simp_all add: go_mod_def sgn_if)

lemma ceil_div_int:
  assumes "1 \<le> (N::int)" "1 \<le> C"
  defines "k \<equiv> (N + C - 1) div C"
  shows "N \<le> k * C" "(k - 1) * C < N" "1 \<le> k" "k \<le> N"
proof -
  define m where "m = N + C - 1"
  have C0: "0 < C" using assms(2) by simp
  have dm: "m = k * C + m mod C" by (simp add: k_def m_def)
  have r: "0 \<le> m mod C" "m mod C < C" using C0 by simp_all
  show 1: "N \<le> k * C" using dm r by (simp add: m_def) 
  show 2: "(k - 1) * C < N" using dm r by (simp add: m_def left_diff_distrib)
  show 3: "1 \<le> k"
  proof (rule ccontr)
    assume "\<not> 1 \<le> k"
    then have "k \<le> 0" by simp
    then have "k * C \<le> 0" using C0 by (simp add: mult_le_0_iff)
    with 1 assms(1) show False by simp
  qed
  have "(k - 1) * 1 \<le> (k - 1) * C" using 3 assms(2) by (intro mult_left_mono) simp_all
  with 2 show "k \<le> N" by simp
qed

lemma ceil_rows:
  assumes N: "1 \<le> N" "N < 2 ^ 53" and C: "1 \<le> C" "C < 2 ^ 53"
  shows "toInt plat (goCeil (fdiv (ofInt N) (ofInt C))) = (N + C - 1) div C"
proof -
  define k where "k = (N + C - 1) div C"
  note kf = ceil_div_int [OF N(1) C(1), folded k_def]
  define a :: rat where "a = of_int N / of_int C"
  have Cpos: "(0 :: rat) < of_int C" using C(1) by simp
  have Npos: "(0 :: rat) < of_int N" using N(1) by simp
  have apos: "0 < a" using Cpos Npos by (simp add: a_def)
  have f: "fdiv (ofInt N) (ofInt C) = round64 a"
    using N C by (simp add: ofInt_pos a_def)
  have C53: "(of_int C :: rat) < 2 ^ 53" using C(2) by (simp flip: of_int_less_iff)
  have N53: "(of_int N :: rat) < 2 ^ 53" using N(2) by (simp flip: of_int_less_iff)
  have N1: "(1 :: rat) \<le> of_int N" using N(1) by simp
  have C1: "(1 :: rat) \<le> of_int C" using C(1) by simp
  have invC: "1 / of_int C \<le> a" using N1 Cpos by (simp add: a_def divide_right_mono)
  have "pow2 (- 53) = 1 / 2 ^ 53" by (simp add: pow2_def)
  also have "\<dots> \<le> 1 / of_int C" using C53 Cpos by (simp add: frac_le)
  finally have lo: "pow2 (- 53) \<le> a" using invC by simp
  have "a \<le> of_int N" using C1 Npos by (simp add: a_def pos_divide_le_eq mult_le_cancel_left1)
  then have hi: "a < pow2 53" using N53 by (simp add: pow2_def)
  from ilog2_range [OF apos lo hi] have e: "- 53 \<le> ilog2 a" "ilog2 a < 53" by simp_all
  define q where "q = pow2 (ilog2 a - 52)"
  have mx: "max (ilog2 a) (- 1022) = ilog2 a" using e by simp
  from round64_grid [OF apos] e obtain v where
    v: "round64 a = Fin v" and err: "\<bar>v - a\<bar> \<le> q / 2"
    and up: "\<And>n. a \<le> of_int n * q \<Longrightarrow> v \<le> of_int n * q"
    unfolding q_def mx by force
  define d where "d = 52 - ilog2 a"
  have d0: "0 \<le> d" using e by (simp add: d_def)
  have "pow2 d * q = pow2 0" unfolding q_def d_def pow2_add [symmetric] by simp
  then have one: "of_int (2 ^ nat d) * q = 1" using d0 by (simp add: pow2_nat pow2_0)
  have kq: "of_int (k * 2 ^ nat d) * q = of_int k"
    using one by (simp add: mult.assoc)
  have "of_int N \<le> (of_int (k * C) :: rat)" using kf(1) by (simp only: of_int_le_iff)
  then have ak: "a \<le> of_int k" using Cpos by (simp add: a_def pos_divide_le_eq)
  have vk: "v \<le> of_int k" by (rule up [of "k * 2 ^ nat d", unfolded kq, OF ak])
  have half: "pow2 (- 1) = 1 / 2" by (simp add: pow2_def)
  have "q / 2 = pow2 (ilog2 a - 52) * pow2 (- 1)" by (simp add: q_def half)
  also have "\<dots> = pow2 (ilog2 a - 53)" by (simp add: pow2_add [symmetric])
  also have "\<dots> = pow2 (ilog2 a) * pow2 (- 53)" by (simp add: pow2_add [symmetric])
  also have "\<dots> \<le> a * pow2 (- 53)"
    using ilog2_bounds [OF apos] pow2_pos [of "- 53"] by (simp add: mult_right_mono)
  also have "\<dots> = (of_int N / 2 ^ 53) * (1 / of_int C)" by (simp add: a_def pow2_def)
  also have "\<dots> < 1 * (1 / of_int C)"
    using N53 Cpos by (intro mult_strict_right_mono) simp_all
  finally have q2: "q / 2 < 1 / of_int C" by simp
  have "(of_int ((k - 1) * C + 1) :: rat) \<le> of_int N" using kf(2) by (simp only: of_int_le_iff)
  then have "(of_int k - 1) * of_int C + 1 \<le> (of_int N :: rat)" by simp
  then have "(of_int k - 1) + 1 / of_int C \<le> a"
    using Cpos by (simp add: a_def pos_le_divide_eq add_divide_distrib distrib_right)
  with q2 err have kv: "of_int k - 1 < v" by linarith
  have cv: "\<lceil>v\<rceil> = k" using kv vk by (intro ceiling_unique) simp_all
  have "k < 2 ^ 63" using kf(4) N(2) by simp
  with kf(3) show ?thesis
    unfolding k_def [symmetric] by (simp add: f v cv toInt_def)
qed


lemma gridRows_pred: "0 < cols \<Longrightarrow> gridRows n cols = (n - 1) div cols + 1"
proof -
  assume c: "0 < cols"
  have "(n + cols - 1) div cols = ((n - 1) + cols) div cols"
    by (rule arg_cong [where f = "\<lambda>x. x div cols"]) simp
  also have "\<dots> = (n - 1) div cols + 1" using c by simp
  finally show ?thesis by (simp add: gridRows_def)
qed

text \<open>Where the products of the geometry stay within an \<^verbatim>\<open>int\<close>.\<close>

lemma cell_bounds:
  assumes c: "1 \<le> cols" and t: "0 \<le> t" and p: "0 \<le> p"
    and j: "0 \<le> j" "j < n"
    and w: "cols * (t + p) < 2 ^ 63" and h: "gridRows n cols * (t + p) < 2 ^ 63"
  shows "0 \<le> (j mod cols) * (t + p)" "(j mod cols) * (t + p) + t < 2 ^ 63"
    "0 \<le> (j div cols) * (t + p)" "(j div cols) * (t + p) + t < 2 ^ 63"
    "t + p < 2 ^ 63"
proof -
  have c0: "0 < cols" using c by simp
  have tp: "0 \<le> t + p" using t p by simp
  have m: "0 \<le> j mod cols" "j mod cols \<le> cols - 1" using c0 by simp_all
  have "j div cols \<le> (n - 1) div cols" using j(2) c0 by (intro zdiv_mono1) simp_all
  then have d: "0 \<le> j div cols" "j div cols \<le> gridRows n cols - 1"
    using j(1) c0 by (simp_all add: gridRows_pred pos_imp_zdiv_nonneg_iff)
  show "0 \<le> (j mod cols) * (t + p)" using m(1) tp by simp
  show "0 \<le> (j div cols) * (t + p)" using d(1) tp by simp
  have "(j mod cols) * (t + p) \<le> (cols - 1) * (t + p)"
    using m(2) tp by (rule mult_right_mono)
  then have "(j mod cols) * (t + p) + t \<le> cols * (t + p)"
    using p by (simp add: left_diff_distrib)
  with w show "(j mod cols) * (t + p) + t < 2 ^ 63" by simp
  have "(j div cols) * (t + p) \<le> (gridRows n cols - 1) * (t + p)"
    using d(2) tp by (rule mult_right_mono)
  then have "(j div cols) * (t + p) + t \<le> gridRows n cols * (t + p)"
    using p by (simp add: left_diff_distrib)
  with h show "(j div cols) * (t + p) + t < 2 ^ 63" by simp
  have "1 * (t + p) \<le> cols * (t + p)" using c tp by (rule mult_right_mono)
  with w show "t + p < 2 ^ 63" by simp
qed

lemma cell_placement:
  assumes c: "1 \<le> cols" and t: "0 \<le> t" and p: "0 \<le> p"
    and j: "0 \<le> j" "j < n" and n: "n < 2 ^ 53"
    and w: "cols * (t + p) < 2 ^ 63" and h: "gridRows n cols * (t + p) < 2 ^ 63"
  shows "Rect (go_mul (go_mod j cols) (go_add t p)) (go_mul (go_div j cols) (go_add t p))
           (go_add (go_mul (go_mod j cols) (go_add t p)) t)
           (go_add (go_mul (go_div j cols) (go_add t p)) t)
         = cellRect cols t p j"
proof -
  note b = cell_bounds [OF c t p j w h]
  have c0: "0 < cols" using c by simp
  have j63: "j < 2 ^ 63" using j(2) n by simp
  have dv: "go_div j cols = j div cols" using j(1) j63 c0 by (rule go_div_nonneg)
  have md: "go_mod j cols = j mod cols" using j(1) c0 by (rule go_mod_nonneg)
  have tp: "go_add t p = t + p" using t p b(5) by (simp add: go_add_def wrap64_id)
  have x: "go_mul (j mod cols) (t + p) = (j mod cols) * (t + p)"
    using b(1,2) t by (simp add: go_mul_def wrap64_id)
  have y: "go_mul (j div cols) (t + p) = (j div cols) * (t + p)"
    using b(3,4) t by (simp add: go_mul_def wrap64_id)
  have xt: "go_add ((j mod cols) * (t + p)) t = (j mod cols) * (t + p) + t"
    using b(1,2) t by (simp add: go_add_def wrap64_id)
  have yt: "go_add ((j div cols) * (t + p)) t = (j div cols) * (t + p) + t"
    using b(3,4) t by (simp add: go_add_def wrap64_id)
  show ?thesis
    unfolding dv md tp x y xt yt using t by (simp add: Rect_def cellRect_def)
qed

lemma drawThumbs_ok:
  assumes c: "1 \<le> cols" and t: "0 \<le> t" and p: "0 \<le> p"
    and n: "n < 2 ^ 53"
    and w: "cols * (t + p) < 2 ^ 63" and h: "gridRows n cols * (t + p) < 2 ^ 63"
    and a: "allocRGBA lib (Rect 0 0 t t)"
  shows "0 \<le> i \<Longrightarrow> i + int (length imgs) \<le> n \<Longrightarrow>
     drawThumbs lib imgs cols t p i cv =
       Inr (cv\<lparr>drawn := drawn cv @
              map (\<lambda>k. (cellRect cols t p (i + int k),
                         Thumb (imgs ! k) (cropSquare lib (imgs ! k)) t)) [0..<length imgs]\<rparr>)"
proof (induction imgs arbitrary: i cv)
  case Nil
  then show ?case by simp
next
  case (Cons img rest)
  have c0: "cols \<noteq> 0" using c by simp
  have j: "0 \<le> i" "i < n" using Cons.prems by simp_all
  have pl: "Rect (go_mul (go_mod i cols) (go_add t p)) (go_mul (go_div i cols) (go_add t p))
           (go_add (go_mul (go_mod i cols) (go_add t p)) t)
           (go_add (go_mul (go_div i cols) (go_add t p)) t)
         = cellRect cols t p i"
    using c t p j n w h by (rule cell_placement)
  have rs: "resizeSquare lib img t = Some (Thumb img (cropSquare lib img) t)"
    using a by (simp add: resizeSquare_def)
  have ih: "drawThumbs lib rest cols t p (i + 1) cv' =
       Inr (cv'\<lparr>drawn := drawn cv' @
              map (\<lambda>k. (cellRect cols t p (i + 1 + int k),
                         Thumb (rest ! k) (cropSquare lib (rest ! k)) t)) [0..<length rest]\<rparr>)" for cv'
    using Cons.prems by (intro Cons.IH) simp_all
  have shift: "map (\<lambda>k. (cellRect cols t p (i + int k),
                         Thumb ((img # rest) ! k) (cropSquare lib ((img # rest) ! k)) t))
                   [0..<length (img # rest)]
       = (cellRect cols t p i, Thumb img (cropSquare lib img) t)
         # map (\<lambda>k. (cellRect cols t p (i + 1 + int k),
                         Thumb (rest ! k) (cropSquare lib (rest ! k)) t)) [0..<length rest]"
    by (simp add: upt_conv_Cons map_Suc_upt [symmetric] add.assoc del: upt_Suc)
  show ?case
    unfolding shift
    by (simp add: c0 rs pl ih Let_def)
qed


lemma grid_extent:
  assumes c: "1 \<le> c" "c < 2 ^ 63" and t: "0 \<le> t" and p: "0 \<le> p"
    and w: "c * (t + p) < 2 ^ 63"
  shows "go_add (go_mul c t) (go_mul (go_sub c 1) p) = c * t + (c - 1) * p"
    and "0 \<le> c * t + (c - 1) * p"
proof -
  have ct: "0 \<le> c * t" using c t by simp
  have cp: "0 \<le> (c - 1) * p" using c p by simp
  have "c * t + (c - 1) * p \<le> c * (t + p)" using p by (simp add: distrib_left left_diff_distrib)
  with w have s: "c * t + (c - 1) * p < 2 ^ 63" by simp
  show "0 \<le> c * t + (c - 1) * p" using ct cp by simp
  have 1: "go_mul c t = c * t" using ct cp s by (simp add: go_mul_def wrap64_id)
  have 2: "go_sub c 1 = c - 1" using c by (simp add: go_sub_def wrap64_id)
  have 3: "go_mul (c - 1) p = (c - 1) * p" using ct cp s by (simp add: go_mul_def wrap64_id)
  show "go_add (go_mul c t) (go_mul (go_sub c 1) p) = c * t + (c - 1) * p"
    unfolding 1 2 3 using ct cp s by (simp add: go_add_def wrap64_id)
qed

lemma buildGridPNG_geometry:
  assumes ne: "images \<noteq> []"
    and c: "1 \<le> cols" "cols < 2 ^ 53"
    and n: "int (length images) < 2 ^ 53"
    and t: "0 \<le> thumbPx" and p: "0 \<le> paddingPx"
    and w: "cols * (thumbPx + paddingPx) < 2 ^ 63"
    and h: "gridRows (int (length images)) cols * (thumbPx + paddingPx) < 2 ^ 63"
    and ac: "allocRGBA lib (Rect 0 0 (gridWidth cols thumbPx paddingPx)
                (gridHeight (int (length images)) cols thumbPx paddingPx))"
    and at: "allocRGBA lib (Rect 0 0 thumbPx thumbPx)"
  shows "\<exists>cv.
      gridCanvas lib plat images cols thumbPx paddingPx
        = Inr (cv, gridWidth cols thumbPx paddingPx,
               gridHeight (int (length images)) cols thumbPx paddingPx)
    \<and> bounds cv = \<lparr>minX = 0, minY = 0, maxX = gridWidth cols thumbPx paddingPx,
                    maxY = gridHeight (int (length images)) cols thumbPx paddingPx\<rparr>
    \<and> length (drawn cv) = length images
    \<and> (\<forall>i<length images.
          drawn cv ! i = (cellRect cols thumbPx paddingPx (int i),
                          Thumb (images ! i) (cropSquare lib (images ! i)) thumbPx))
    \<and> buildGridPNG lib plat images cols thumbPx paddingPx
        = (case encodePNG lib cv of
             Inl e \<Rightarrow> Inl (Error e)
           | Inr png \<Rightarrow> Inr (png, gridWidth cols thumbPx paddingPx,
                              gridHeight (int (length images)) cols thumbPx paddingPx))"
proof -
  define N where "N = int (length images)"
  define W where "W = gridWidth cols thumbPx paddingPx"
  define H where "H = gridHeight N cols thumbPx paddingPx"
  have N1: "1 \<le> N" using ne by (cases images) (simp_all add: N_def)
  have rows: "toInt plat (goCeil (fdiv (ofInt N) (ofInt cols))) = gridRows N cols"
    unfolding gridRows_def using N1 n c by (intro ceil_rows) (simp_all add: N_def)
  note rb = ceil_div_int [OF N1 c(1), folded gridRows_def]
  have r63: "gridRows N cols < 2 ^ 63" using rb(4) n by (simp add: N_def)
  have c63: "cols < 2 ^ 63" using c(2) by simp
  note we = grid_extent [OF c(1) c63 t p w]
  note he = grid_extent [OF rb(3) r63 t p h [folded N_def]]
  have wd: "go_add (go_mul cols thumbPx) (go_mul (go_sub cols 1) paddingPx) = W"
    using we(1) by (simp add: W_def gridWidth_def)
  have ht: "go_add (go_mul (gridRows N cols) thumbPx) (go_mul (go_sub (gridRows N cols) 1) paddingPx) = H"
    using he(1) by (simp add: H_def gridHeight_def)
  have W0: "0 \<le> W" using we(2) by (simp add: W_def gridWidth_def)
  have H0: "0 \<le> H" using he(2) by (simp add: H_def gridHeight_def)
  have rect: "Rect 0 0 W H = \<lparr>minX = 0, minY = 0, maxX = W, maxY = H\<rparr>"
    using W0 H0 by (simp add: Rect_def)
  define cv0 :: "'a canvas" where "cv0 = \<lparr>bounds = Rect 0 0 W H, drawn = []\<rparr>"
  define cv where "cv = cv0\<lparr>drawn := drawn cv0 @
              map (\<lambda>k. (cellRect cols thumbPx paddingPx (0 + int k),
                         Thumb (images ! k) (cropSquare lib (images ! k)) thumbPx))
                  [0..<length images]\<rparr>"
  have dr: "drawThumbs lib images cols thumbPx paddingPx 0 cv0 = Inr cv"
    unfolding cv_def
    using c(1) t p n w h at by (intro drawThumbs_ok [where n = N]) (simp_all add: N_def)
  have gc: "gridCanvas lib plat images cols thumbPx paddingPx = Inr (cv, W, H)"
    using ne ac dr
    by (simp add: gridCanvas_def Let_def rows [unfolded N_def] wd [unfolded N_def]
        ht [unfolded N_def] cv0_def W_def H_def N_def)
  have b: "bounds cv = \<lparr>minX = 0, minY = 0, maxX = W, maxY = H\<rparr>"
    by (simp add: cv_def cv0_def rect)
  have l: "length (drawn cv) = length images" by (simp add: cv_def cv0_def)
  have nth: "drawn cv ! i = (cellRect cols thumbPx paddingPx (int i),
                          Thumb (images ! i) (cropSquare lib (images ! i)) thumbPx)"
    if "i < length images" for i
    using that by (simp add: cv_def cv0_def)
  have bg: "buildGridPNG lib plat images cols thumbPx paddingPx
        = (case encodePNG lib cv of Inl e \<Rightarrow> Inl (Error e) | Inr png \<Rightarrow> Inr (png, W, H))"
    by (simp add: buildGridPNG_def gc)
  from gc b l nth bg show ?thesis
    unfolding W_def H_def N_def by blast
qed




subsection \<open>Render driver\<close>

lemma drawThumbs_no_panic:
  assumes "\<forall>r. allocRGBA lib r" "cols \<noteq> 0"
  shows "\<exists>cv'. drawThumbs lib imgs cols t p i cv = Inr cv'"
  using assms
  by (induction imgs arbitrary: i cv) (simp_all add: resizeSquare_def Let_def)

lemma buildGridPNG_no_panic:
  assumes "\<forall>r. allocRGBA lib r" "cols \<noteq> 0"
  shows "buildGridPNG lib plat images cols t p \<noteq> Inl (Panic m)"
proof -
  obtain cv' where "drawThumbs lib images cols t p 0
      \<lparr>bounds = Rect 0 0 (go_add (go_mul cols t) (go_mul (go_sub cols 1) p))
         (go_add (go_mul (toInt plat (goCeil (fdiv (ofInt (int (length images))) (ofInt cols)))) t)
            (go_mul (go_sub (toInt plat (goCeil (fdiv (ofInt (int (length images))) (ofInt cols)))) 1) p)),
       drawn = []\<rparr> = Inr cv'"
    using drawThumbs_no_panic [OF assms] by blast
  then show ?thesis
    using assms(1)
    by (auto simp: buildGridPNG_def gridCanvas_def Let_def split: sum.splits)
qed

text \<open>The encoders and the cursor advance only append to the writer.\<close>

lemma sendKittyData_append: "\<exists>x. sendKittyData b d = b @ x"
  by (simp add: sendKittyData_def loop_frames)

lemma transmit_append:
  "transmit w protocol ident png cols rows b = (b2, fr, adv) \<Longrightarrow> b2 = b @ fr @ adv"
proof -
  assume t: "transmit w protocol ident png cols rows b = (b2, fr, adv)"
  define out1 where "out1 = (if protocol = ProtocolIterm
                  then SendItermInline (w_trimSpace w) (Some b)
                         \<lparr>Name = ''instagram-grid.png'', IData = png, WidthCells = cols,
                          HeightCells = rows, Stretch = True\<rparr>
                  else SendKittyPNG (Some b) ident png cols rows)"
  have "\<exists>x. out1 = Some (b @ x)"
    using sendKittyData_append [of b]
    by (auto simp: out1_def SendItermInline_def SendKittyPNG_def Let_def)
  then obtain x where x: "out1 = Some (b @ x)" by blast
  have "\<exists>y. advanceCursor (Some (b @ x)) rows = Some ((b @ x) @ y)"
    by (simp add: advanceCursor_def Let_def)
  then obtain y where y: "advanceCursor (Some (b @ x)) rows = Some ((b @ x) @ y)" by blast
  from t show ?thesis
    unfolding transmit_def out1_def [symmetric] x
    by (auto simp: Let_def y)
qed

lemma transmit_advance:
  "transmit w protocol ident png cols rows b = (b2, fr, adv) \<Longrightarrow>
     adv = replicate (nat (go_add (if rows < 1 then 1 else rows) 1)) newline"
  by (auto simp: transmit_def advanceCursor_def Let_def split: option.splits)

lemma renderPage_Next:
  assumes pr: "protocol \<noteq> ProtocolNone"
    and al: "\<forall>r. allocRGBA (w_imaging w) r"
    and gc: "1 \<le> gridCols"
  shows "\<exists>e st'. renderPage w protocol gridCols thumbCols thumbPx paddingPx items pageItems st
             = (Next, e, st')
           \<and> pg_items e = pageItems
           \<and> stdout st' @ buffered st' = stdout st @ buffered st @ pg_output e
           \<and> panicked st' = panicked st"
proof -
  obtain images err where f: "fetchImages w pageItems [] (stderr st) = (images, err)"
    by (cases "fetchImages w pageItems [] (stderr st)")
  show ?thesis
  proof (cases "images = []")
    case True
    then show ?thesis by (simp add: renderPage_def f)
  next
    case False
    define pageCols where
      "pageCols = (if gridCols > int (length images) then int (length images) else gridCols)"
    have pc: "pageCols \<noteq> 0" using gc False by (simp add: pageCols_def)
    show ?thesis
    proof (cases "buildGridPNG (w_imaging w) (w_platform w) images pageCols thumbPx paddingPx")
      case (Inl fl)
      then obtain e where "fl = Error e"
        using buildGridPNG_no_panic [OF al pc] by (cases fl) auto
      with Inl False show ?thesis
        by (simp add: renderPage_def f pageCols_def [symmetric])
    next
      case (Inr res)
      obtain png gw gh where res: "res = (png, gw, gh)" by (cases res)
      obtain b2 fr adv where
        t: "transmit w protocol (nextID st) png (go_mul pageCols thumbCols)
              (estimateRows (w_platform w) (go_mul pageCols thumbCols) gw gh (cellAspectOf w))
              (buffered st) = (b2, fr, adv)"
        using prod_cases3 by blast
      from transmit_append [OF t] have b2: "b2 = buffered st @ fr @ adv" .
      from Inr res False pr t show ?thesis
        by (simp add: renderPage_def f pageCols_def [symmetric] Let_def flush_def b2)
    qed
  qed
qed

lemma pageCount_less: "1 \<le> ps \<Longrightarrow> k < pageCount n ps \<longleftrightarrow> k * ps < n"
proof -
  assume ps: "1 \<le> ps"
  have "k < pageCount n ps \<longleftrightarrow> k + 1 \<le> (n + ps - 1) div ps"
    by (auto simp: pageCount_def)
  also have "\<dots> \<longleftrightarrow> (k + 1) * ps \<le> n + ps - 1"
    using ps by (simp add: less_eq_div_iff_mult_less_eq)
  also have "\<dots> \<longleftrightarrow> k * ps < n" using ps by auto
  finally show ?thesis .
qed

lemma pageLoop_run:
  fixes items :: "'item list" and w :: "('item, 'img) world"
  assumes pr: "protocol \<noteq> ProtocolNone"
    and al: "\<forall>r. allocRGBA (w_imaging w) r"
    and gc: "1 \<le> gridCols"
    and ps: "1 \<le> pageSize" "pageSize < 2 ^ 63"
    and len: "int (length items) < 2 ^ 62"
  shows "\<exists>st' es.
      pageLoop w protocol (gridCols, thumbCols, thumbPx, paddingPx) items pageSize
        (int (k * nat pageSize)) st plog = Some (st', plog @ es)
    \<and> map pg_items es = map (pageSlice items (nat pageSize)) [k..<pageCount (length items) (nat pageSize)]
    \<and> (\<forall>e\<in>set es. \<exists>st0 st1.
          renderPage w protocol gridCols thumbCols thumbPx paddingPx items (pg_items e) st0
            = (Next, e, st1))
    \<and> stdout st' @ buffered st' = stdout st @ buffered st @ concat (map pg_output es)
    \<and> panicked st' = panicked st"
proof (induction "pageCount (length items) (nat pageSize) - k" arbitrary: k st plog)
  case 0
  have P1: "1 \<le> nat pageSize" using ps(1) by simp
  from 0 have "\<not> k < pageCount (length items) (nat pageSize)" by simp
  then have ge: "length items \<le> k * nat pageSize"
    using pageCount_less [OF P1, of k "length items"] by simp
  then have "\<not> int (k * nat pageSize) < int (length items)"
    by (simp only: of_nat_less_iff not_less)
  then have "pageLoop w protocol (gridCols, thumbCols, thumbPx, paddingPx) items pageSize
        (int (k * nat pageSize)) st plog = Some (st, plog)"
    by (subst pageLoop.simps) simp
  moreover have "[k..<pageCount (length items) (nat pageSize)] = []" using 0 by simp
  ultimately show ?case by simp
next
  case (Suc n)
  define P where "P = nat pageSize"
  define start where "start = int (k * P)"
  have P1: "1 \<le> P" using ps(1) by (simp add: P_def)
  have Pint: "int P = pageSize" using ps(1) by (simp add: P_def)
  from Suc(2) have klt: "k < pageCount (length items) P" by (simp add: P_def)
  then have lt: "k * P < length items" using pageCount_less [OF P1] by simp
  have s0: "0 \<le> start" by (simp add: start_def)
  have slt: "start < int (length items)" using lt unfolding start_def by (simp only: of_nat_less_iff)
  have sum63: "start + pageSize < 2 ^ 63"
  proof (cases "k = 0")
    case True
    then show ?thesis using ps(2) by (simp add: start_def)
  next
    case False
    then have "P \<le> k * P" by simp
    then have "int P \<le> int (k * P)" by (simp only: of_nat_le_iff)
    then have "pageSize \<le> start" unfolding start_def Pint .
    with slt len show ?thesis by simp
  qed
  define M where "M = (k + 1) * P"
  have next_start: "int M = start + pageSize"
    unfolding M_def start_def Pint [symmetric] by (simp add: distrib_right)
  have "go_add start pageSize = start + pageSize"
    using s0 ps(1) sum63 by (simp add: go_add_def wrap64_id)
  then have add: "go_add start pageSize = int M" by (simp only: next_start)
  define end1 where "end1 = (if int M > int (length items) then int (length items) else int M)"
  have e1: "end1 = int (min M (length items))" by (simp add: end1_def min_def)
  have ege: "\<not> end1 < start" using slt ps(1) by (simp add: end1_def next_start)
  have "nat (end1 - start) = min M (length items) - k * P"
    unfolding e1 start_def by (simp only: nat_minus_as_int [symmetric])
  moreover have "nat start = k * P" unfolding start_def by (simp only: nat_int)
  ultimately have sl: "take (nat (end1 - start)) (drop (nat start) items) = pageSlice items P k"
    by (simp only: pageSlice_def M_def)
  from renderPage_Next [OF pr al gc, of thumbCols thumbPx paddingPx items "pageSlice items P k" st]
  obtain e st1 where
    rp: "renderPage w protocol gridCols thumbCols thumbPx paddingPx items (pageSlice items P k) st
           = (Next, e, st1)"
    and pe: "pg_items e = pageSlice items P k"
    and so: "stdout st1 @ buffered st1 = stdout st @ buffered st @ pg_output e"
    and pa: "panicked st1 = panicked st"
    by blast
  have step: "pageLoop w protocol (gridCols, thumbCols, thumbPx, paddingPx) items pageSize start st plog
      = pageLoop w protocol (gridCols, thumbCols, thumbPx, paddingPx) items pageSize
          (int M) st1 (plog @ [e])"
    apply (subst pageLoop.simps)
    using slt s0 ege
    apply (simp only: add Let_def end1_def [symmetric] sl)
    apply (simp add: rp)
    done
  have m: "n = pageCount (length items) (nat pageSize) - (k + 1)" using Suc(2) by simp
  from Suc(1) [OF m, of st1 "plog @ [e]"]
  obtain st' es where
    run: "pageLoop w protocol (gridCols, thumbCols, thumbPx, paddingPx) items pageSize
        (int M) st1 (plog @ [e]) = Some (st', (plog @ [e]) @ es)"
    and its: "map pg_items es = map (pageSlice items P) [k + 1..<pageCount (length items) P]"
    and rps: "\<forall>e\<in>set es. \<exists>st0 st1.
          renderPage w protocol gridCols thumbCols thumbPx paddingPx items (pg_items e) st0
            = (Next, e, st1)"
    and so': "stdout st' @ buffered st' = stdout st1 @ buffered st1 @ concat (map pg_output es)"
    and pa': "panicked st' = panicked st1"
    unfolding P_def M_def by blast
  have 1: "pageLoop w protocol (gridCols, thumbCols, thumbPx, paddingPx) items pageSize
        (int (k * nat pageSize)) st plog = Some (st', plog @ (e # es))"
    using step run by (simp add: start_def P_def)
  have 2: "map pg_items (e # es) = map (pageSlice items (nat pageSize))
             [k..<pageCount (length items) (nat pageSize)]"
    using klt its pe by (simp add: upt_conv_Cons P_def)
  have 3: "\<forall>x\<in>set (e # es). \<exists>st0 st1.
          renderPage w protocol gridCols thumbCols thumbPx paddingPx items (pg_items x) st0
            = (Next, x, st1)"
    using rps rp pe by auto
  have 4: "stdout st' @ buffered st' = stdout st @ buffered st @ concat (map pg_output (e # es))"
    using so so' by simp
  have 5: "panicked st' = panicked st" using pa pa' by simp
  from 1 2 3 4 5 show ?case by blast
qed


lemma wrap64_range: "- (2 ^ 63) \<le> wrap64 x \<and> wrap64 x < 2 ^ 63"
proof -
  have "0 \<le> (x + 2 ^ 63) mod 2 ^ 64" "(x + 2 ^ 63) mod 2 ^ 64 < (2 ^ 64 :: int)"
    by simp_all
  moreover have "(2 :: int) ^ 64 = 2 * 2 ^ 63" by simp
  ultimately show ?thesis unfolding wrap64_def by linarith
qed

lemma autoPageSize_range: "autoPageSize w gridCols thumbCols thumbPx aspect < 2 ^ 63"
  using wrap64_range [of "gridCols * 8"]
    wrap64_range [of "gridCols * (if go_div (snd (the (w_termSize w)))
        (estimateRows (w_platform w) thumbCols thumbPx thumbPx aspect) < 1 then 1
      else go_div (snd (the (w_termSize w)))
        (estimateRows (w_platform w) thumbCols thumbPx thumbPx aspect))"]
  by (auto simp: autoPageSize_def go_mul_def Let_def split: option.splits)

lemma pageSizeOf_range:
  assumes "PageSize opts < 2 ^ 63" "int (length items) < 2 ^ 62"
  shows "pageSizeOf w opts items < 2 ^ 63"
proof -
  have "int (length items) < 2 ^ 63" using assms(2) by simp
  then show ?thesis
    using assms(1) autoPageSize_range [of w "gridColsOf opts" "thumbColsOf w opts" "thumbPxOf opts" "cellAspectOf w"]
    by (simp add: pageSizeOf_def Let_def)
qed

lemma pageSizeOf_pos: "items \<noteq> [] \<Longrightarrow> 1 \<le> pageSizeOf w opts items"
  by (cases items) (auto simp: pageSizeOf_def Let_def)

lemma pageSizeOf_given: "0 < PageSize opts \<Longrightarrow> pageSizeOf w opts items = PageSize opts"
  by (simp add: pageSizeOf_def Let_def)

lemma gridColsOf_pos: "1 \<le> gridColsOf opts"
  by (simp add: gridColsOf_def)

lemma pageCount_Nil: "pageCount 0 ps = 0"
  by (cases "ps = 0") (simp_all add: pageCount_def)

lemma renderGrid_run:
  fixes items :: "'item list" and w :: "('item, 'img) world"
  assumes pr: "Detect w \<noteq> ProtocolNone"
    and al: "\<forall>r. allocRGBA (w_imaging w) r"
    and ps: "PageSize opts < 2 ^ 63"
    and len: "int (length items) < 2 ^ 62"
  shows "\<exists>st plog.
      renderGrid w items opts = Some (st, plog)
    \<and> map pg_items plog = map (pageSlice items (nat (pageSizeOf w opts items)))
          [0..<pageCount (length items) (nat (pageSizeOf w opts items))]
    \<and> (\<forall>e\<in>set plog. \<exists>st0 st1.
          renderPage w (Detect w) (gridColsOf opts) (thumbColsOf w opts) (thumbPxOf opts)
            (paddingPxOf opts) items (pg_items e) st0 = (Next, e, st1))
    \<and> stdout st = concat (map pg_output plog)
    \<and> buffered st = [] \<and> panicked st = None"
proof (cases "items = []")
  case True
  have "pageLoop w (Detect w)
          (gridColsOf opts, thumbColsOf w opts, thumbPxOf opts, paddingPxOf opts)
          items (pageSizeOf w opts items) 0 rstate0 [] = Some (rstate0, [])"
    using True by (subst pageLoop.simps) simp
  then show ?thesis
    using pr True by (simp add: renderGrid_def Let_def flush_def rstate0_def pageCount_Nil)
next
  case False
  note p1 = pageSizeOf_pos [OF False, of w opts]
  note p63 = pageSizeOf_range [OF ps len, of w]
  from pageLoop_run [OF pr al gridColsOf_pos [of opts] p1 p63 len,
      where thumbCols = "thumbColsOf w opts" and thumbPx = "thumbPxOf opts"
        and paddingPx = "paddingPxOf opts" and k = 0 and st = rstate0 and plog = "[]"]
  obtain st' es where
    run: "pageLoop w (Detect w)
          (gridColsOf opts, thumbColsOf w opts, thumbPxOf opts, paddingPxOf opts)
          items (pageSizeOf w opts items) 0 rstate0 [] = Some (st', es)"
    and its: "map pg_items es = map (pageSlice items (nat (pageSizeOf w opts items)))
          [0..<pageCount (length items) (nat (pageSizeOf w opts items))]"
    and rps: "\<forall>e\<in>set es. \<exists>st0 st1.
          renderPage w (Detect w) (gridColsOf opts) (thumbColsOf w opts) (thumbPxOf opts)
            (paddingPxOf opts) items (pg_items e) st0 = (Next, e, st1)"
    and so: "stdout st' @ buffered st' = stdout rstate0 @ buffered rstate0 @ concat (map pg_output es)"
    and pa: "panicked st' = panicked rstate0"
    by auto
  have rg: "renderGrid w items opts = Some (flush st', es)"
    using pr run by (simp add: renderGrid_def Let_def)
  have "stdout (flush st') = concat (map pg_output es)"
    using so by (simp add: flush_def rstate0_def)
  moreover have "buffered (flush st') = []" by (simp add: flush_def)
  moreover have "panicked (flush st') = None" using pa by (simp add: flush_def rstate0_def)
  ultimately show ?thesis using rg its rps by blast
qed

lemma pageSlice_take: "pageSlice items ps k = take ps (drop (k * ps) items)"
proof (cases "(k + 1) * ps \<le> length items")
  case True
  then have "min ((k + 1) * ps) (length items) - k * ps = ps" by simp
  then show ?thesis by (simp only: pageSlice_def)
next
  case False
  then have "min ((k + 1) * ps) (length items) - k * ps = length items - k * ps" by simp
  moreover have "length items - k * ps \<le> ps" using False by simp
  ultimately show ?thesis by (simp add: pageSlice_def)
qed

lemma pageCount_step:
  assumes "1 \<le> ps" "0 < n"
  shows "pageCount n ps = Suc (pageCount (n - ps) ps)"
proof -
  obtain m where m: "n = Suc m" using assms(2) by (cases n) simp_all
  have "pageCount n ps = (m + ps) div ps" by (simp add: pageCount_def m)
  also have "\<dots> = Suc (m div ps)" using assms(1) by simp
  finally have 1: "pageCount n ps = Suc (m div ps)" .
  have 2: "pageCount (n - ps) ps = m div ps"
  proof (cases "n \<le> ps")
    case True
    then have "m < ps" by (simp add: m)
    with True assms(1) show ?thesis by (simp add: pageCount_def)
  next
    case False
    then have "n - ps + ps - 1 = m" by (simp add: m)
    then show ?thesis by (simp only: pageCount_def)
  qed
  from 1 2 show ?thesis by simp
qed

lemma concat_pages:
  assumes "1 \<le> ps"
  shows "concat (map (pageSlice items ps) [0..<pageCount (length items) ps]) = items"
proof (induction "length items" arbitrary: items rule: less_induct)
  case less
  show ?case
  proof (cases "items = []")
    case True
    then show ?thesis by (simp add: pageCount_Nil)
  next
    case False
    then have n: "pageCount (length items) ps = Suc (pageCount (length (drop ps items)) ps)"
      using pageCount_step [OF assms, of "length items"] by simp
    have lt: "length (drop ps items) < length items" using False assms by simp
    have "map (pageSlice items ps) [0..<pageCount (length items) ps]
        = take ps items # map (pageSlice (drop ps items) ps) [0..<pageCount (length (drop ps items)) ps]"
      unfolding n
      by (simp add: upt_conv_Cons map_Suc_upt [symmetric] pageSlice_take add.commute del: upt_Suc)
    then show ?thesis using less [OF lt] by simp
  qed
qed


lemma length_pageSlice:
  "length (pageSlice items ps k) = min ((k + 1) * ps) (length items) - k * ps"
  by (auto simp: pageSlice_def min_def)

lemma Detect_sample: "Detect (w_sample a) = ProtocolKitty"
  by (simp add: Detect_def w_sample_def detectInline_def asciiToLower_def asciiTrimSpace_def
      asciiSpace_def asciiLowerChar_def)

text \<open>
  C4: when a graphics protocol is detected and no allocation panics, \<open>renderGrid\<close>
  returns, and its pages partition the items: with \<open>ps\<close> the page size of the run (the
  option \<^verbatim>\<open>PageSize\<close> when it is positive; at least 1 as soon as there is an item), there
  are \<open>ceil(total / ps)\<close> pages, page \<open>k\<close> holds the items from \<open>k * ps\<close> up to
  \<open>min((k + 1) * ps, total)\<close> and nothing else, and the pages concatenated in order are
  the item list.
\<close>

theorem C4_pagination_partition:
  assumes "Detect w \<noteq> ProtocolNone"
    and "\<forall>r. allocRGBA (w_imaging w) r"
    and "PageSize opts < 2 ^ 63"
    and "int (length items) < 2 ^ 62"
  shows "\<exists>st plog.
      renderGrid w items opts = Some (st, plog)
    \<and> (0 < PageSize opts \<longrightarrow> pageSizeOf w opts items = PageSize opts)
    \<and> (items \<noteq> [] \<longrightarrow> 1 \<le> pageSizeOf w opts items)
    \<and> length plog = pageCount (length items) (nat (pageSizeOf w opts items))
    \<and> (\<forall>k<length plog.
          pg_items (plog ! k) = pageSlice items (nat (pageSizeOf w opts items)) k
        \<and> length (pg_items (plog ! k))
            = min ((k + 1) * nat (pageSizeOf w opts items)) (length items)
              - k * nat (pageSizeOf w opts items))
    \<and> concat (map pg_items plog) = items"
proof -
  define ps where "ps = nat (pageSizeOf w opts items)"
  from renderGrid_run [OF assms] obtain st plog where
    rg: "renderGrid w items opts = Some (st, plog)"
    and its: "map pg_items plog = map (pageSlice items ps) [0..<pageCount (length items) ps]"
    unfolding ps_def by blast
  have l: "length plog = pageCount (length items) ps"
    using arg_cong [OF its, of length] by simp
  have nth: "pg_items (plog ! k) = pageSlice items ps k" if "k < length plog" for k
  proof -
    have "pg_items (plog ! k) = map pg_items plog ! k" using that by simp
    also have "\<dots> = pageSlice items ps k" using that l by (simp add: its)
    finally show ?thesis .
  qed
  have cat: "concat (map pg_items plog) = items"
  proof (cases "items = []")
    case True
    then show ?thesis by (simp add: its pageCount_Nil)
  next
    case False
    then have "1 \<le> ps" using pageSizeOf_pos [OF False, of w opts] by (simp add: ps_def)
    then show ?thesis unfolding its by (rule concat_pages)
  qed
  from rg l nth cat pageSizeOf_given [of opts w items] pageSizeOf_pos [of items w opts]
  show ?thesis
    unfolding ps_def [symmetric] by (auto simp: length_pageSlice)
qed

theorem C4_pagination_partition_witness:
  "Detect (w_sample ''1.5'') \<noteq> ProtocolNone
   \<and> pageSizeOf (w_sample ''1.5'') opts_sample [1, 2, 3] = 2
   \<and> pages_of (renderGrid (w_sample ''1.5'') [1, 2, 3] opts_sample) = [[1, 2], [3]]"
proof -
  have d: "Detect (w_sample ''1.5'') \<noteq> ProtocolNone" by (simp add: Detect_sample)
  have a: "\<forall>r. allocRGBA (w_imaging (w_sample ''1.5'')) r"
    by (simp add: w_sample_def lib_sample_def)
  have p: "PageSize opts_sample < 2 ^ 63" by (simp add: opts_sample_def)
  have n: "int (length [1, 2, 3 :: nat]) < 2 ^ 62" by simp
  have ps: "pageSizeOf (w_sample ''1.5'') opts_sample [1, 2, 3] = 2"
    by (simp add: pageSizeOf_def opts_sample_def)
  have pc: "pageCount (length [1, 2, 3 :: nat]) (nat 2) = 2" by (simp add: pageCount_def)
  from C4_pagination_partition [OF d a p n, unfolded ps pc]
  obtain st plog where
    rg: "renderGrid (w_sample ''1.5'') [1, 2, 3] opts_sample = Some (st, plog)"
    and l: "length plog = 2"
    and nth: "\<forall>k<length plog. pg_items (plog ! k) = pageSlice [1, 2, 3] (nat 2) k"
    by blast
  from l obtain e0 e1 where pl: "plog = [e0, e1]"
    by (cases plog; cases "tl plog") auto
  from nth pl have "pg_items e0 = pageSlice [1, 2, 3] (nat 2) 0"
    "pg_items e1 = pageSlice [1, 2, 3] (nat 2) 1" by auto
  then have "map pg_items plog = [[1, 2], [3]]"
    by (simp add: pl pageSlice_def)
  with rg d ps show ?thesis by (simp add: pages_of_def)
qed


lemma fetchImages_fetched:
  "fst (fetchImages w xs imgs err) = imgs @ fetched w xs"
  by (induction xs arbitrary: imgs err) (auto simp: fetched_def split: sum.splits)

text \<open>What a page entry says, read off \<open>renderPage\<close>.\<close>

lemma renderPage_entry:
  assumes "renderPage w protocol gridCols thumbCols thumbPx paddingPx items pageItems st0 = (fl, e, st1)"
  shows "pg_items e = pageItems"
    and "pg_images e = fetched w pageItems"
    and "pg_event e = NoImages \<longleftrightarrow> pg_images e = []"
    and "pg_images e = [] \<Longrightarrow> pg_output e = []"
    and "pg_event e = Transmitted c cc rs fr adv \<Longrightarrow>
           c = min gridCols (int (length (pg_images e)))
         \<and> (\<exists>png gw gh.
               buildGridPNG (w_imaging w) (w_platform w) (pg_images e) c thumbPx paddingPx
                 = Inr (png, gw, gh)
             \<and> cc = go_mul c thumbCols
             \<and> rs = estimateRows (w_platform w) cc gw gh (cellAspectOf w))
         \<and> adv = replicate (nat (go_add (if rs < 1 then 1 else rs) 1)) newline
         \<and> pg_output e = fr @ adv"
proof -
  obtain images err where f: "fetchImages w pageItems [] (stderr st0) = (images, err)"
    by (cases "fetchImages w pageItems [] (stderr st0)")
  have im: "images = fetched w pageItems"
    using fetchImages_fetched [of w pageItems "[]" "stderr st0"] f by simp
  define pageCols where
    "pageCols = (if gridCols > int (length images) then int (length images) else gridCols)"
  have pcm: "pageCols = min gridCols (int (length images))" by (simp add: pageCols_def min_def)
  show "pg_items e = pageItems"
    using assms
    by (auto simp: renderPage_def f Let_def split: if_splits sum.splits failure.splits prod.splits)
  show i: "pg_images e = fetched w pageItems"
    using assms
    by (auto simp: renderPage_def f im Let_def split: if_splits sum.splits failure.splits prod.splits)
  show "pg_event e = NoImages \<longleftrightarrow> pg_images e = []"
    using assms
    by (auto simp: renderPage_def f im Let_def split: if_splits sum.splits failure.splits prod.splits)
  show "pg_images e = [] \<Longrightarrow> pg_output e = []"
    using assms
    by (auto simp: renderPage_def f im Let_def split: if_splits sum.splits failure.splits prod.splits)
  assume ev: "pg_event e = Transmitted c cc rs fr adv"
  show "c = min gridCols (int (length (pg_images e)))
         \<and> (\<exists>png gw gh.
               buildGridPNG (w_imaging w) (w_platform w) (pg_images e) c thumbPx paddingPx
                 = Inr (png, gw, gh)
             \<and> cc = go_mul c thumbCols
             \<and> rs = estimateRows (w_platform w) cc gw gh (cellAspectOf w))
         \<and> adv = replicate (nat (go_add (if rs < 1 then 1 else rs) 1)) newline
         \<and> pg_output e = fr @ adv"
  proof (cases "images = []")
    case True
    with assms have "pg_event e = NoImages" by (auto simp: renderPage_def f)
    with ev show ?thesis by simp
  next
    case False
    show ?thesis
    proof (cases "buildGridPNG (w_imaging w) (w_platform w) images pageCols thumbPx paddingPx")
      case (Inl x)
      with assms ev False show ?thesis
        by (cases x) (auto simp: renderPage_def f pageCols_def [symmetric] Let_def)
    next
      case (Inr res)
      obtain png gw gh where res: "res = (png, gw, gh)" by (cases res)
      obtain b2 fr' adv' where
        t: "transmit w protocol (nextID st0) png (go_mul pageCols thumbCols)
              (estimateRows (w_platform w) (go_mul pageCols thumbCols) gw gh (cellAspectOf w))
              (buffered st0) = (b2, fr', adv')"
        using prod_cases3 by blast
      note ta = transmit_advance [OF t]
      from assms ev False Inr res t
      have pn: "protocol \<noteq> ProtocolNone"
        by (auto simp: renderPage_def f pageCols_def [symmetric] Let_def split: if_splits)
      from assms False Inr res t pn
      have e: "e = \<lparr>pg_items = pageItems, pg_images = images,
                   pg_event = Transmitted pageCols (go_mul pageCols thumbCols)
                     (estimateRows (w_platform w) (go_mul pageCols thumbCols) gw gh (cellAspectOf w))
                     fr' adv',
                   pg_output = fr' @ adv'\<rparr>"
        by (simp add: renderPage_def f pageCols_def [symmetric] Let_def)
      from ev e have eq: "c = pageCols" "cc = go_mul pageCols thumbCols"
        "rs = estimateRows (w_platform w) (go_mul pageCols thumbCols) gw gh (cellAspectOf w)"
        "fr = fr'" "adv = adv'" by auto
      show ?thesis
        using Inr res ta unfolding eq by (simp add: e pcm)
    qed
  qed
qed


lemma renderPage_transmitted:
  assumes rp: "renderPage w protocol gridCols thumbCols thumbPx paddingPx items pageItems st0 = (fl, e, st1)"
    and pn: "protocol \<noteq> ProtocolNone"
    and ne: "fetched w pageItems \<noteq> []"
    and bg: "buildGridPNG (w_imaging w) (w_platform w) (fetched w pageItems)
               (min gridCols (int (length (fetched w pageItems)))) thumbPx paddingPx
             = Inr (png, gw, gh)"
  shows "\<exists>fr adv. pg_event e =
           Transmitted (min gridCols (int (length (fetched w pageItems))))
             (go_mul (min gridCols (int (length (fetched w pageItems)))) thumbCols)
             (estimateRows (w_platform w)
                (go_mul (min gridCols (int (length (fetched w pageItems)))) thumbCols) gw gh
                (cellAspectOf w)) fr adv"
proof -
  obtain images err where f: "fetchImages w pageItems [] (stderr st0) = (images, err)"
    by (cases "fetchImages w pageItems [] (stderr st0)")
  have im: "images = fetched w pageItems"
    using fetchImages_fetched [of w pageItems "[]" "stderr st0"] f by simp
  define pageCols where
    "pageCols = (if gridCols > int (length images) then int (length images) else gridCols)"
  have pcm: "min gridCols (int (length images)) = pageCols" by (simp add: pageCols_def min_def)
  obtain b2 fr adv where
    t: "transmit w protocol (nextID st0) png (go_mul pageCols thumbCols)
          (estimateRows (w_platform w) (go_mul pageCols thumbCols) gw gh (cellAspectOf w))
          (buffered st0) = (b2, fr, adv)"
    using prod_cases3 by blast
  have ne': "images \<noteq> []" using ne by (simp add: im)
  have bg': "buildGridPNG (w_imaging w) (w_platform w) images pageCols thumbPx paddingPx
             = Inr (png, gw, gh)"
    using bg unfolding im [symmetric] pcm .
  from rp pn ne' bg' t
  have "pg_event e = Transmitted pageCols (go_mul pageCols thumbCols)
          (estimateRows (w_platform w) (go_mul pageCols thumbCols) gw gh (cellAspectOf w)) fr adv"
    by (auto simp: renderPage_def f pageCols_def [symmetric] Let_def)
  then show ?thesis unfolding im [symmetric] pcm by blast
qed

text \<open>A run that returns: its pages, each the entry of \<open>renderPage\<close> on its own items.\<close>

lemma renderGrid_pages:
  fixes items :: "'item list" and w :: "('item, 'img) world"
  assumes pr: "Detect w \<noteq> ProtocolNone"
    and al: "\<forall>r. allocRGBA (w_imaging w) r"
    and ps: "PageSize opts < 2 ^ 63"
    and len: "int (length items) < 2 ^ 62"
  shows "\<exists>st plog.
      renderGrid w items opts = Some (st, plog)
    \<and> length plog = pageCount (length items) (nat (pageSizeOf w opts items))
    \<and> (\<forall>k<length plog. pg_items (plog ! k) = pageSlice items (nat (pageSizeOf w opts items)) k)
    \<and> (\<forall>e\<in>set plog. \<exists>st0 st1.
          renderPage w (Detect w) (gridColsOf opts) (thumbColsOf w opts) (thumbPxOf opts)
            (paddingPxOf opts) items (pg_items e) st0 = (Next, e, st1))
    \<and> (\<forall>e\<in>set plog. pg_images e = fetched w (pg_items e))
    \<and> (\<forall>e\<in>set plog. length (pg_items e) \<le> length items)
    \<and> stdout st = concat (map pg_output plog)"
proof -
  define P where "P = nat (pageSizeOf w opts items)"
  from renderGrid_run [OF assms] obtain st plog where
    rg: "renderGrid w items opts = Some (st, plog)"
    and its: "map pg_items plog = map (pageSlice items P) [0..<pageCount (length items) P]"
    and rps: "\<forall>e\<in>set plog. \<exists>st0 st1.
          renderPage w (Detect w) (gridColsOf opts) (thumbColsOf w opts) (thumbPxOf opts)
            (paddingPxOf opts) items (pg_items e) st0 = (Next, e, st1)"
    and so: "stdout st = concat (map pg_output plog)"
    unfolding P_def by blast
  have l: "length plog = pageCount (length items) P"
    using arg_cong [OF its, of length] by simp
  have nth: "pg_items (plog ! k) = pageSlice items P k" if "k < length plog" for k
  proof -
    have "pg_items (plog ! k) = map pg_items plog ! k" using that by simp
    also have "\<dots> = pageSlice items P k" using that l by (simp add: its)
    finally show ?thesis .
  qed
  have im: "pg_images e = fetched w (pg_items e)" if "e \<in> set plog" for e
    using rps that renderPage_entry(2) by blast
  have le: "length (pg_items e) \<le> length items" if "e \<in> set plog" for e
  proof -
    from that obtain k where "k < length plog" "e = plog ! k" by (auto simp: in_set_conv_nth)
    with nth show ?thesis by (simp add: pageSlice_take)
  qed
  from rg l nth rps im le so show ?thesis unfolding P_def by blast
qed

lemma fetched_sample_0: "fetched (w_sample a) [0] = []"
  by (simp add: fetched_def w_sample_def)

lemma fetched_sample_1: "fetched (w_sample a) [Suc 0] = [sample_image]"
  by (simp add: fetched_def w_sample_def)

lemma fetched_sample_01: "fetched (w_sample a) [0, Suc 0] = [sample_image]"
  by (simp add: fetched_def w_sample_def)

lemma alloc_sample: "\<forall>r. allocRGBA (w_imaging (w_sample a)) r"
  by (simp add: w_sample_def lib_sample_def)

text \<open>The compositor of the sample run on one image: a 64 by 64 canvas.\<close>

lemma buildGridPNG_sample:
  "buildGridPNG (w_imaging (w_sample a)) (w_platform (w_sample a)) [sample_image] 1 64 0
     = Inr (''Px'', 64, 64)"
proof -
  have r: "gridRows 1 1 = 1" by (simp add: gridRows_def)
  have gw: "gridWidth 1 64 0 = 64" by (simp add: gridWidth_def)
  have gh: "gridHeight 1 1 64 0 = 64" by (simp add: gridHeight_def r)
  have l: "int (length [sample_image]) = 1" by simp
  from buildGridPNG_geometry [of "[sample_image]" 1 64 0 lib_sample plat_amd64, unfolded l r gw gh]
  obtain cv where
    len: "length (drawn cv) = length [sample_image]"
    and bg: "buildGridPNG lib_sample plat_amd64 [sample_image] 1 64 0
        = (case encodePNG lib_sample cv of
             Inl e \<Rightarrow> Inl (Error e) | Inr png \<Rightarrow> Inr (png, 64, 64))"
    by (auto simp: lib_sample_def)
  from len obtain d where "drawn cv = [d]" by (cases "drawn cv") auto
  then have "encodePNG lib_sample cv = Inr ''Px''" by (simp add: lib_sample_def)
  with bg show ?thesis by (simp add: w_sample_def)
qed


lemma sample_run_single:
  assumes "items \<noteq> []" "length items \<le> 2"
  shows "\<exists>st e st0 st1.
      renderGrid (w_sample a) items opts_sample = Some (st, [e])
    \<and> pg_items e = items
    \<and> renderPage (w_sample a) ProtocolKitty 2 12 64 0 items items st0 = (Next, e, st1)"
proof -
  have d: "Detect (w_sample a) \<noteq> ProtocolNone" by (simp add: Detect_sample)
  have p: "PageSize opts_sample < 2 ^ 63" by (simp add: opts_sample_def)
  have n: "int (length items) < 2 ^ 62" using assms(2) by simp
  have ps: "pageSizeOf (w_sample a) opts_sample items = 2"
    by (simp add: pageSizeOf_def opts_sample_def)
  have pc: "pageCount (length items) (nat 2) = 1"
    using assms by (cases items; cases "tl items") (auto simp: pageCount_def)
  have cfg: "gridColsOf opts_sample = 2" "thumbColsOf (w_sample a) opts_sample = 12"
    "thumbPxOf opts_sample = 64" "paddingPxOf opts_sample = 0"
    by (simp_all add: gridColsOf_def thumbColsOf_def thumbPxOf_def paddingPxOf_def opts_sample_def)
  from renderGrid_pages [OF d alloc_sample p n, unfolded ps pc cfg Detect_sample]
  obtain st plog where
    rg: "renderGrid (w_sample a) items opts_sample = Some (st, plog)"
    and l: "length plog = 1"
    and nth: "\<forall>k<length plog. pg_items (plog ! k) = pageSlice items (nat 2) k"
    and rps: "\<forall>e\<in>set plog. \<exists>st0 st1.
          renderPage (w_sample a) ProtocolKitty 2 12 64 0 items (pg_items e) st0 = (Next, e, st1)"
    by blast
  from l obtain e where pl: "plog = [e]" by (cases plog) auto
  have "pg_items e = pageSlice items (nat 2) 0" using nth pl by simp
  then have it: "pg_items e = items" using assms(2) by (simp add: pageSlice_take)
  from rps pl it obtain st0 st1 where
    "renderPage (w_sample a) ProtocolKitty 2 12 64 0 items items st0 = (Next, e, st1)" by auto
  with rg pl it show ?thesis by blast
qed

text \<open>
  C7: the compositor fails on an empty image list, and the driver never calls it on one.
  In a run with a detected protocol in which no allocation panics, every page is
  processed; a page is skipped (event \<open>NoImages\<close>) exactly when none of its items
  downloads and decodes, and a skipped page writes nothing: the bytes on the standard
  output are those of the other pages, one after the other.
\<close>

theorem C7_empty_page_skipped:
  assumes "Detect w \<noteq> ProtocolNone"
    and "\<forall>r. allocRGBA (w_imaging w) r"
    and "PageSize opts < 2 ^ 63"
    and "int (length items) < 2 ^ 62"
  shows "buildGridPNG lib plat [] cols thumbPx paddingPx = Inl (Error ''no images'')
    \<and> (\<exists>st plog.
          renderGrid w items opts = Some (st, plog)
        \<and> length plog = pageCount (length items) (nat (pageSizeOf w opts items))
        \<and> (\<forall>k<length plog. pg_items (plog ! k) = pageSlice items (nat (pageSizeOf w opts items)) k)
        \<and> stdout st = concat (map pg_output plog)
        \<and> (\<forall>e\<in>set plog.
              pg_images e = fetched w (pg_items e)
            \<and> (pg_images e = [] \<longleftrightarrow> pg_event e = NoImages)
            \<and> (pg_images e = [] \<longrightarrow> pg_output e = [])))"
proof -
  have b: "buildGridPNG lib plat [] cols thumbPx paddingPx = Inl (Error ''no images'')"
    by (simp add: buildGridPNG_def gridCanvas_def)
  from renderGrid_pages [OF assms] obtain st plog where
    rg: "renderGrid w items opts = Some (st, plog)"
    and l: "length plog = pageCount (length items) (nat (pageSizeOf w opts items))"
    and nth: "\<forall>k<length plog. pg_items (plog ! k) = pageSlice items (nat (pageSizeOf w opts items)) k"
    and rps: "\<forall>e\<in>set plog. \<exists>st0 st1.
          renderPage w (Detect w) (gridColsOf opts) (thumbColsOf w opts) (thumbPxOf opts)
            (paddingPxOf opts) items (pg_items e) st0 = (Next, e, st1)"
    and so: "stdout st = concat (map pg_output plog)"
    by blast
  have pe: "pg_images e = fetched w (pg_items e)
            \<and> (pg_images e = [] \<longleftrightarrow> pg_event e = NoImages)
            \<and> (pg_images e = [] \<longrightarrow> pg_output e = [])" if "e \<in> set plog" for e
  proof -
    from rps that obtain st0 st1 where
      rp: "renderPage w (Detect w) (gridColsOf opts) (thumbColsOf w opts) (thumbPxOf opts)
            (paddingPxOf opts) items (pg_items e) st0 = (Next, e, st1)" by blast
    from renderPage_entry(2) [OF rp] renderPage_entry(3) [OF rp] renderPage_entry(4) [OF rp]
    show ?thesis by blast
  qed
  from b rg l nth so pe show ?thesis by blast
qed

theorem C7_empty_page_skipped_witness:
  "Detect (w_sample ''1.5'') \<noteq> ProtocolNone
   \<and> fetched (w_sample ''1.5'') [0] = []
   \<and> pages_of (renderGrid (w_sample ''1.5'') [0, 1] opts_single) = [[0], [1]]
   \<and> skipped_of (renderGrid (w_sample ''1.5'') [0, 1] opts_single) = [True, False]"
proof -
  have d: "Detect (w_sample ''1.5'') \<noteq> ProtocolNone" by (simp add: Detect_sample)
  have p: "PageSize opts_single < 2 ^ 63" by (simp add: opts_single_def)
  have n: "int (length [0, 1 :: nat]) < 2 ^ 62" by simp
  have ps: "pageSizeOf (w_sample ''1.5'') opts_single [0, 1] = 1"
    by (simp add: pageSizeOf_def opts_single_def)
  have pc: "pageCount (length [0, 1 :: nat]) (nat 1) = 2" by (simp add: pageCount_def)
  from C7_empty_page_skipped [OF d alloc_sample p n, unfolded ps pc]
  obtain st plog where
    rg: "renderGrid (w_sample ''1.5'') [0, 1] opts_single = Some (st, plog)"
    and l: "length plog = 2"
    and nth: "\<forall>k<length plog. pg_items (plog ! k) = pageSlice [0, 1] (nat 1) k"
    and pe: "\<forall>e\<in>set plog.
              pg_images e = fetched (w_sample ''1.5'') (pg_items e)
            \<and> (pg_images e = [] \<longleftrightarrow> pg_event e = NoImages)
            \<and> (pg_images e = [] \<longrightarrow> pg_output e = [])"
    by blast
  from l obtain e0 e1 where pl: "plog = [e0, e1]"
    by (cases plog; cases "tl plog") auto
  from nth pl have i0: "pg_items e0 = [0]" and i1: "pg_items e1 = [Suc 0]"
    by (auto simp: pageSlice_def)
  have mem: "e0 \<in> set plog" "e1 \<in> set plog" by (simp_all add: pl)
  note q0 = pe [rule_format, OF mem(1)] and q1 = pe [rule_format, OF mem(2)]
  note f0 = q0 [THEN conjunct1] and k0 = q0 [THEN conjunct2, THEN conjunct1]
    and o0 = q0 [THEN conjunct2, THEN conjunct2]
    and f1 = q1 [THEN conjunct1] and k1 = q1 [THEN conjunct2, THEN conjunct1]
  have m0: "pg_images e0 = []" unfolding f0 i0 by (rule fetched_sample_0)
  have m1: "pg_images e1 = [sample_image]" unfolding f1 i1 by (rule fetched_sample_1)
  from m0 k0 o0 have s0: "pg_event e0 = NoImages \<and> pg_output e0 = []" by blast
  from m1 k1 have s1: "pg_event e1 \<noteq> NoImages" by simp
  from rg pl i0 i1 s0 s1 d show ?thesis
    by (simp add: pages_of_def skipped_of_def fetched_sample_0)
qed




text \<open>The single page of the sample run on the items 0 and 1: one image, one column.\<close>

lemma sample_page_01:
  "\<exists>st e fr adv.
      renderGrid (w_sample a) [0, Suc 0] opts_sample = Some (st, [e])
    \<and> pg_items e = [0, Suc 0]
    \<and> pg_event e = Transmitted 1 12
         (estimateRows plat_amd64 12 64 64 (cellAspectOf (w_sample a))) fr adv
    \<and> adv = replicate (nat (go_add
              (if estimateRows plat_amd64 12 64 64 (cellAspectOf (w_sample a)) < 1 then 1
               else estimateRows plat_amd64 12 64 64 (cellAspectOf (w_sample a))) 1)) newline"
proof -
  from sample_run_single [of "[0, Suc 0]" a] obtain st e st0 st1 where
    rg: "renderGrid (w_sample a) [0, Suc 0] opts_sample = Some (st, [e])"
    and it: "pg_items e = [0, Suc 0]"
    and rp: "renderPage (w_sample a) ProtocolKitty 2 12 64 0 [0, Suc 0] [0, Suc 0] st0 = (Next, e, st1)"
    by auto
  have ne: "fetched (w_sample a) [0, Suc 0] \<noteq> []" by (simp add: fetched_sample_01)
  have bg: "buildGridPNG (w_imaging (w_sample a)) (w_platform (w_sample a))
              (fetched (w_sample a) [0, Suc 0])
              (min 2 (int (length (fetched (w_sample a) [0, Suc 0])))) 64 0 = Inr (''Px'', 64, 64)"
    by (simp add: fetched_sample_01 buildGridPNG_sample)
  have plat: "w_platform (w_sample a) = plat_amd64" by (simp add: w_sample_def)
  have gm: "go_mul 1 12 = 12" by (simp add: go_mul_def wrap64_def)
  from renderPage_transmitted [OF rp _ ne bg]
  obtain fr adv where
    ev: "pg_event e = Transmitted 1 12 (estimateRows plat_amd64 12 64 64 (cellAspectOf (w_sample a))) fr adv"
    by (auto simp: fetched_sample_01 plat gm)
  from renderPage_entry(5) [OF rp ev]
  have "adv = replicate (nat (go_add
              (if estimateRows plat_amd64 12 64 64 (cellAspectOf (w_sample a)) < 1 then 1
               else estimateRows plat_amd64 12 64 64 (cellAspectOf (w_sample a))) 1)) newline"
    by blast
  with rg it ev show ?thesis by blast
qed







subsection \<open>Cursor advance\<close>

lemma thumbColsOf_pos: "1 \<le> thumbColsOf w opts"
  by (auto simp: thumbColsOf_def autoThumbCols_def Let_def split: option.splits)

lemma length_fetched_le: "length (fetched w xs) \<le> length xs"
  by (induction xs) (auto simp: fetched_def split: sum.splits)

lemma cellAspectOf_cases:
  "cellAspectOf w = NaN \<or> (\<exists>a. cellAspectOf w = Fin a \<and> 0 \<le> a \<and> a \<le> 2)"
  using CellAspectRatio_cases [of "w_parseFloat w" "w_trimSpace w" "w_getenv w"
      "''METCLI_CELL_ASPECT''" "Fin (1 / 2)"]
  unfolding cellAspectOf_def [symmetric] by auto

lemma floor_of_int_half: "\<lfloor>(r :: rat) + 1 / 2\<rfloor> \<le> n \<longleftrightarrow> r < of_int n + 1 / 2"
  by (simp add: floor_le_iff) linarith

lemma estimateRows_pos:
  assumes c: "0 < c" "c < 2 ^ 30" and w: "0 < wd" "wd < 2 ^ 53"
    and h: "0 < h" "h < 2 ^ 30" and a: "0 \<le> a" "a \<le> 2"
  shows "1 \<le> estimateRows plat c wd h (Fin a) \<and> estimateRows plat c wd h (Fin a) < 2 ^ 62"
proof -
  have oc: "ofInt c = Fin (of_int c)" using c by (intro ofInt_pos) simp_all
  have ow: "ofInt wd = Fin (of_int wd)" using w by (intro ofInt_pos) simp_all
  have oh: "ofInt h = Fin (of_int h)" using h by (intro ofInt_pos) simp_all
  have wn: "(of_int wd :: rat) \<noteq> 0" using w(1) by simp
  have p30: "pow2 30 = 2 ^ 30" and p60: "pow2 60 = 2 ^ 60" and p61: "pow2 61 = 2 ^ 61"
    by (simp_all add: pow2_def)
  have h30: "(of_int h :: rat) \<le> 2 ^ 30" using h(2) by (simp flip: of_int_le_iff)
  have c30: "(of_int c :: rat) \<le> 2 ^ 30" using c(2) by (simp flip: of_int_le_iff)
  have w1: "(1 :: rat) \<le> of_int wd" using w(1) by simp
  have x1: "0 \<le> (of_int h :: rat) / of_int wd" using h(1) w(1) by simp
  have "(of_int h :: rat) / of_int wd \<le> of_int h / 1"
    using w1 h(1) by (intro divide_left_mono) simp_all
  with h30 have x1': "(of_int h :: rat) / of_int wd \<le> pow2 30" by (simp add: p30)
  from round64_le_pow2_0 [OF x1 x1'] obtain v where
    v: "round64 (of_int h / of_int wd) = Fin v" "0 \<le> v" "v \<le> pow2 30" by auto
  have x2: "0 \<le> of_int c * v" using c(1) v(2) by simp
  have "of_int c * v \<le> 2 ^ 30 * 2 ^ 30" using c30 v(2,3) c(1) unfolding p30
    by (intro mult_mono) simp_all
  then have x2': "of_int c * v \<le> pow2 60" by (simp add: p60)
  from round64_le_pow2_0 [OF x2 x2'] obtain u where
    u: "round64 (of_int c * v) = Fin u" "0 \<le> u" "u \<le> pow2 60" by auto
  have x3: "0 \<le> u * a" using u(2) a(1) by simp
  have "u * a \<le> 2 ^ 60 * 2" using u(2,3) a unfolding p60 by (intro mult_mono) simp_all
  then have x3': "u * a \<le> pow2 61" by (simp add: p61)
  from round64_le_pow2_0 [OF x3 x3'] obtain r where
    r: "round64 (u * a) = Fin r" "0 \<le> r" "r \<le> pow2 61" by auto
  have prod: "fmul (fmul (ofInt c) (fdiv (ofInt h) (ofInt wd))) (Fin a) = Fin r"
    using w(1) by (simp add: oc ow oh v u r)
  define r1 where "r1 = (if r < 1 then 1 else r)"
  have r1: "1 \<le> r1" "r1 \<le> 2 ^ 61" using r(3) by (simp_all add: r1_def p61)
  define t where "t = \<lfloor>r1 + 1 / 2\<rfloor>"
  have t1: "1 \<le> t" using r1(1) by (simp add: t_def le_floor_iff)
  have "t \<le> 2 ^ 61" unfolding t_def floor_of_int_half using r1(2) by simp
  then have t62: "t < 2 ^ 62" by simp
  have rows1: "(if flt (Fin r) (Fin 1) then Fin 1 else Fin r) = Fin r1"
    by (simp add: r1_def)
  have gr: "goRound (Fin r1) = Fin (of_int t)" using r1(1) by (simp add: t_def)
  have ti: "toInt plat (Fin (of_int t)) = t" using t1 t62 by (simp add: toInt_def)
  have "estimateRows plat c wd h (Fin a)
          = toInt plat (goRound (if flt (Fin r) (Fin 1) then Fin 1 else Fin r))"
    using c(1) w(1) h(1) by (simp add: estimateRows_def prod Let_def)
  then have er: "estimateRows plat c wd h (Fin a) = t"
    by (simp only: rows1 gr ti)
  show ?thesis using t1 t62 by (simp add: er)
qed


text \<open>
  The row height of a composited page is at least 1 when the cell aspect ratio is a number
  and the sizes are moderate.
\<close>

lemma page_rows_pos:
  fixes w :: "('item, 'img) world"
  assumes al: "\<forall>r. allocRGBA (w_imaging w) r"
    and nn: "cellAspectOf w \<noteq> NaN"
    and gc: "1 \<le> gridCols" and tc: "1 \<le> thumbCols" and b1: "gridCols * thumbCols < 2 ^ 30"
    and t: "64 \<le> t" and p: "0 \<le> p"
    and ne: "images \<noteq> []" and b2: "int (length images) * (t + p) < 2 ^ 30"
    and c: "c = min gridCols (int (length images))"
    and bg: "buildGridPNG (w_imaging w) (w_platform w) images c t p = Inr (png, gw, gh)"
  shows "1 \<le> estimateRows (w_platform w) (go_mul c thumbCols) gw gh (cellAspectOf w)
       \<and> estimateRows (w_platform w) (go_mul c thumbCols) gw gh (cellAspectOf w) < 2 ^ 62"
proof -
  define n where "n = int (length images)"
  have n1: "1 \<le> n" using ne by (cases images) (simp_all add: n_def)
  have c1: "1 \<le> c" and cn: "c \<le> n" and cg: "c \<le> gridCols"
    using gc n1 by (simp_all add: c n_def)
  have tp: "64 \<le> t + p" using t p by simp
  have "n * 1 \<le> n * (t + p)" using n1 tp by (intro mult_left_mono) simp_all
  with b2 have n30: "n < 2 ^ 30" by (simp add: n_def)
  have ctp: "c * (t + p) \<le> n * (t + p)" using cn tp by (intro mult_right_mono) simp_all
  note rb = ceil_div_int [OF n1 c1, folded gridRows_def]
  have rtp: "gridRows n c * (t + p) \<le> n * (t + p)" using rb(4) tp by (intro mult_right_mono) simp_all
  have w63: "c * (t + p) < 2 ^ 63" using ctp b2 by (simp add: n_def)
  have h63: "gridRows n c * (t + p) < 2 ^ 63" using rtp b2 by (simp add: n_def)
  have c53: "c < 2 ^ 53" using cn n30 by simp
  have n53: "int (length images) < 2 ^ 53" using n30 by (simp add: n_def)
  have t0: "0 \<le> t" using t by simp
  from buildGridPNG_geometry [OF ne c1 c53 n53 t0 p w63 h63 [unfolded n_def],
      where lib = "w_imaging w" and plat = "w_platform w"] al
  obtain cv where
    "buildGridPNG (w_imaging w) (w_platform w) images c t p
        = (case encodePNG (w_imaging w) cv of
             Inl e \<Rightarrow> Inl (Error e)
           | Inr x \<Rightarrow> Inr (x, gridWidth c t p, gridHeight (int (length images)) c t p))"
    by blast
  with bg have gw: "gw = gridWidth c t p" and gh: "gh = gridHeight n c t p"
    by (auto simp: n_def split: sum.splits)
  have "0 < c * t" using c1 t by simp
  moreover have "0 \<le> (c - 1) * p" using c1 p by simp
  ultimately have gw0: "0 < gw" by (simp add: gw gridWidth_def)
  have "c * t + (c - 1) * p \<le> c * (t + p)" using p by (simp add: distrib_left left_diff_distrib)
  with ctp b2 have gw30: "gw < 2 ^ 30" by (simp add: gw gridWidth_def n_def)
  have "0 < gridRows n c * t" using rb(3) t by simp
  moreover have "0 \<le> (gridRows n c - 1) * p" using rb(3) p by simp
  ultimately have gh0: "0 < gh" by (simp add: gh gridHeight_def)
  have "gridRows n c * t + (gridRows n c - 1) * p \<le> gridRows n c * (t + p)"
    using p by (simp add: distrib_left left_diff_distrib)
  with rtp b2 have gh30: "gh < 2 ^ 30" by (simp add: gh gridHeight_def n_def)
  have cc0: "0 < c * thumbCols" using c1 tc by simp
  have "c * thumbCols \<le> gridCols * thumbCols" using cg tc by (intro mult_right_mono) simp_all
  with b1 have cc30: "c * thumbCols < 2 ^ 30" by simp
  have cc: "go_mul c thumbCols = c * thumbCols"
    using cc0 cc30 by (simp add: go_mul_def wrap64_id)
  from cellAspectOf_cases [of w] nn obtain a where
    a: "cellAspectOf w = Fin a" "0 \<le> a" "a \<le> 2" by blast
  have gw53: "gw < 2 ^ 53" using gw30 by simp
  show ?thesis
    unfolding cc a(1)
    using cc0 cc30 gw0 gw53 gh0 gh30 a(2,3) by (rule estimateRows_pos)
qed


lemma cellAspectOf_sample_nan: "cellAspectOf (w_sample ''NaN'') = NaN"
  by (simp add: cellAspectOf_def CellAspectRatio_def w_sample_def parseFloat_table_def
      asciiTrimSpace_def asciiSpace_def round64_tenth)

lemma cellAspectOf_sample_15: "cellAspectOf (w_sample ''1.5'') = Fin (3 / 2)"
  by (simp add: cellAspectOf_def CellAspectRatio_def w_sample_def parseFloat_table_def
      asciiTrimSpace_def asciiSpace_def round64_tenth)

lemma fmul_NaN: "fmul x NaN = NaN"
  by (cases x) simp_all

lemma estimateRows_NaN:
  "0 < c \<Longrightarrow> 0 < wd \<Longrightarrow> 0 < h \<Longrightarrow> estimateRows plat c wd h NaN = plat NaN"
  by (simp add: estimateRows_def fmul_NaN toInt_def)

lemma round64_int: "0 < n \<Longrightarrow> n < 2 ^ 53 \<Longrightarrow> round64 (of_int n) = Fin (of_int n)"
  using round64_exact [of n 0] by (simp add: pow2_0)

lemma estimateRows_12_64_64: "estimateRows plat 12 64 64 (Fin (3 / 2)) = 18"
proof -
  have "fdiv (ofInt 64) (ofInt 64) = Fin 1"
    using round64_int [of 1] by (simp add: ofInt_pos)
  moreover have "fmul (ofInt 12) (Fin 1) = Fin 12"
    using round64_int [of 12] by (simp add: ofInt_pos)
  moreover have "fmul (Fin 12) (Fin (3 / 2)) = Fin 18"
    using round64_int [of 18] by simp
  moreover have "\<lfloor>(37 :: rat) / 2\<rfloor> = 18" by (rule floor_unique) simp_all
  ultimately show ?thesis
    by (simp add: estimateRows_def toInt_def)
qed


text \<open>
  The bytes of the encoder of a page are those of the call made with the row height that
  \<open>advanceCursor\<close> is given.
\<close>

lemma transmit_frame:
  assumes t: "transmit w protocol ident png cols rows b = (b2, fr, adv)"
  shows "(if protocol = ProtocolIterm
          then SendItermInline (w_trimSpace w) (Some b)
                 \<lparr>Name = ''instagram-grid.png'', IData = png, WidthCells = cols,
                  HeightCells = rows, Stretch = True\<rparr>
          else SendKittyPNG (Some b) ident png cols rows) = Some (b @ fr)"
proof -
  define out1 where "out1 = (if protocol = ProtocolIterm
                  then SendItermInline (w_trimSpace w) (Some b)
                         \<lparr>Name = ''instagram-grid.png'', IData = png, WidthCells = cols,
                          HeightCells = rows, Stretch = True\<rparr>
                  else SendKittyPNG (Some b) ident png cols rows)"
  have "\<exists>x. out1 = Some (b @ x)"
    using sendKittyData_append [of b]
    by (auto simp: out1_def SendItermInline_def SendKittyPNG_def Let_def)
  then obtain x where x: "out1 = Some (b @ x)" by blast
  from t have "fr = x"
    unfolding transmit_def out1_def [symmetric] x
    by (auto simp: Let_def)
  with x show ?thesis by (simp add: out1_def)
qed

lemma renderPage_frame:
  assumes rp: "renderPage w protocol gridCols thumbCols thumbPx paddingPx items pageItems st0 = (fl, e, st1)"
    and ev: "pg_event e = Transmitted c cc rs fr adv"
  shows "\<exists>png gw gh.
           buildGridPNG (w_imaging w) (w_platform w) (pg_images e) c thumbPx paddingPx
             = Inr (png, gw, gh)
         \<and> cc = go_mul c thumbCols
         \<and> rs = estimateRows (w_platform w) cc gw gh (cellAspectOf w)
         \<and> (if protocol = ProtocolIterm
             then SendItermInline (w_trimSpace w) (Some (buffered st0))
                    \<lparr>Name = ''instagram-grid.png'', IData = png, WidthCells = cc,
                     HeightCells = rs, Stretch = True\<rparr>
             else SendKittyPNG (Some (buffered st0)) (nextID st0) png cc rs)
            = Some (buffered st0 @ fr)"
proof -
  obtain images err where f: "fetchImages w pageItems [] (stderr st0) = (images, err)"
    by (cases "fetchImages w pageItems [] (stderr st0)")
  define pageCols where
    "pageCols = (if gridCols > int (length images) then int (length images) else gridCols)"
  show ?thesis
  proof (cases "images = []")
    case True
    with rp have "pg_event e = NoImages" by (auto simp: renderPage_def f)
    with ev show ?thesis by simp
  next
    case False
    show ?thesis
    proof (cases "buildGridPNG (w_imaging w) (w_platform w) images pageCols thumbPx paddingPx")
      case (Inl x)
      with rp ev False show ?thesis
        by (cases x) (auto simp: renderPage_def f pageCols_def [symmetric] Let_def)
    next
      case (Inr res)
      obtain png gw gh where res: "res = (png, gw, gh)" by (cases res)
      obtain b2 fr' adv' where
        t: "transmit w protocol (nextID st0) png (go_mul pageCols thumbCols)
              (estimateRows (w_platform w) (go_mul pageCols thumbCols) gw gh (cellAspectOf w))
              (buffered st0) = (b2, fr', adv')"
        using prod_cases3 by blast
      note tf = transmit_frame [OF t]
      from rp ev False Inr res t
      have pn: "protocol \<noteq> ProtocolNone"
        by (auto simp: renderPage_def f pageCols_def [symmetric] Let_def split: if_splits)
      from rp False Inr res t pn
      have e: "e = \<lparr>pg_items = pageItems, pg_images = images,
                   pg_event = Transmitted pageCols (go_mul pageCols thumbCols)
                     (estimateRows (w_platform w) (go_mul pageCols thumbCols) gw gh (cellAspectOf w))
                     fr' adv',
                   pg_output = fr' @ adv'\<rparr>"
        by (simp add: renderPage_def f pageCols_def [symmetric] Let_def)
      from ev e have eq: "c = pageCols" "cc = go_mul pageCols thumbCols"
        "rs = estimateRows (w_platform w) (go_mul pageCols thumbCols) gw gh (cellAspectOf w)"
        "fr = fr'" "adv = adv'" by auto
      have im: "pg_images e = images" by (simp add: e)
      show ?thesis
        unfolding eq im using Inr res tf by blast
    qed
  qed
qed

text \<open>
  The cursor advance of every transmitted page, in a run with a detected protocol in which
  no allocation panics: the encoder is called with the row height \<open>rs\<close> of
  \<open>estimateRows\<close>, and \<open>advanceCursor\<close>, given the same \<open>rs\<close>, writes \<open>max(rs, 1) + 1\<close>
  newlines.  When the cell aspect ratio is a number and the grid is below \<open>2^30\<close> cells
  and pixels, \<open>rs\<close> is at least 1 and the newlines are \<open>rs + 1\<close>.
\<close>

lemma cursor_advance_pages:
  assumes "Detect w \<noteq> ProtocolNone"
    and "\<forall>r. allocRGBA (w_imaging w) r"
    and "PageSize opts < 2 ^ 63"
    and "int (length items) < 2 ^ 62"
  shows "\<exists>st plog.
      renderGrid w items opts = Some (st, plog)
    \<and> stdout st = concat (map pg_output plog)
    \<and> (\<forall>e\<in>set plog. \<forall>c cc rs fr adv.
          pg_event e = Transmitted c cc rs fr adv \<longrightarrow>
            pg_output e = fr @ adv
          \<and> pg_images e = fetched w (pg_items e)
          \<and> (\<exists>png gw gh b ident.
                buildGridPNG (w_imaging w) (w_platform w) (pg_images e) c
                  (thumbPxOf opts) (paddingPxOf opts) = Inr (png, gw, gh)
              \<and> cc = go_mul c (thumbColsOf w opts)
              \<and> rs = estimateRows (w_platform w) cc gw gh (cellAspectOf w)
              \<and> (if Detect w = ProtocolIterm
                  then SendItermInline (w_trimSpace w) (Some b)
                         \<lparr>Name = ''instagram-grid.png'', IData = png, WidthCells = cc,
                          HeightCells = rs, Stretch = True\<rparr>
                  else SendKittyPNG (Some b) ident png cc rs) = Some (b @ fr))
          \<and> adv = replicate (nat (go_add (if rs < 1 then 1 else rs) 1)) newline
          \<and> (cellAspectOf w \<noteq> NaN
               \<and> gridColsOf opts * thumbColsOf w opts < 2 ^ 30
               \<and> int (length items) * (thumbPxOf opts + paddingPxOf opts) < 2 ^ 30
               \<longrightarrow> 1 \<le> rs \<and> adv = replicate (nat (rs + 1)) newline))"
proof -
  from renderGrid_pages [OF assms] obtain st plog where
    rg: "renderGrid w items opts = Some (st, plog)"
    and rps: "\<forall>e\<in>set plog. \<exists>st0 st1.
          renderPage w (Detect w) (gridColsOf opts) (thumbColsOf w opts) (thumbPxOf opts)
            (paddingPxOf opts) items (pg_items e) st0 = (Next, e, st1)"
    and ims: "\<forall>e\<in>set plog. pg_images e = fetched w (pg_items e)"
    and les: "\<forall>e\<in>set plog. length (pg_items e) \<le> length items"
    and so: "stdout st = concat (map pg_output plog)"
    by blast
  have pe: "pg_output e = fr @ adv
          \<and> pg_images e = fetched w (pg_items e)
          \<and> (\<exists>png gw gh b ident.
                buildGridPNG (w_imaging w) (w_platform w) (pg_images e) c
                  (thumbPxOf opts) (paddingPxOf opts) = Inr (png, gw, gh)
              \<and> cc = go_mul c (thumbColsOf w opts)
              \<and> rs = estimateRows (w_platform w) cc gw gh (cellAspectOf w)
              \<and> (if Detect w = ProtocolIterm
                  then SendItermInline (w_trimSpace w) (Some b)
                         \<lparr>Name = ''instagram-grid.png'', IData = png, WidthCells = cc,
                          HeightCells = rs, Stretch = True\<rparr>
                  else SendKittyPNG (Some b) ident png cc rs) = Some (b @ fr))
          \<and> adv = replicate (nat (go_add (if rs < 1 then 1 else rs) 1)) newline
          \<and> (cellAspectOf w \<noteq> NaN
               \<and> gridColsOf opts * thumbColsOf w opts < 2 ^ 30
               \<and> int (length items) * (thumbPxOf opts + paddingPxOf opts) < 2 ^ 30
               \<longrightarrow> 1 \<le> rs \<and> adv = replicate (nat (rs + 1)) newline)"
    if mem: "e \<in> set plog" and ev: "pg_event e = Transmitted c cc rs fr adv"
    for e c cc rs fr adv
  proof -
    from rps mem obtain st0 st1 where
      rp: "renderPage w (Detect w) (gridColsOf opts) (thumbColsOf w opts) (thumbPxOf opts)
            (paddingPxOf opts) items (pg_items e) st0 = (Next, e, st1)" by blast
    from ims mem have im: "pg_images e = fetched w (pg_items e)" by blast
    from renderPage_entry(3) [OF rp] ev have ne: "pg_images e \<noteq> []" by auto
    from renderPage_entry(5) [OF rp ev]
    have c: "c = min (gridColsOf opts) (int (length (pg_images e)))"
      and adv: "adv = replicate (nat (go_add (if rs < 1 then 1 else rs) 1)) newline"
      and out: "pg_output e = fr @ adv"
      by blast+
    from renderPage_frame [OF rp ev] obtain png gw gh where
      bg: "buildGridPNG (w_imaging w) (w_platform w) (pg_images e) c
                  (thumbPxOf opts) (paddingPxOf opts) = Inr (png, gw, gh)"
      and cc: "cc = go_mul c (thumbColsOf w opts)"
      and rs: "rs = estimateRows (w_platform w) cc gw gh (cellAspectOf w)"
      and enc: "(if Detect w = ProtocolIterm
                 then SendItermInline (w_trimSpace w) (Some (buffered st0))
                        \<lparr>Name = ''instagram-grid.png'', IData = png, WidthCells = cc,
                         HeightCells = rs, Stretch = True\<rparr>
                 else SendKittyPNG (Some (buffered st0)) (nextID st0) png cc rs)
                = Some (buffered st0 @ fr)"
      by blast
    have bounded: "1 \<le> rs \<and> adv = replicate (nat (rs + 1)) newline"
      if nn: "cellAspectOf w \<noteq> NaN"
        and b1: "gridColsOf opts * thumbColsOf w opts < 2 ^ 30"
        and b2: "int (length items) * (thumbPxOf opts + paddingPxOf opts) < 2 ^ 30"
    proof -
      have t: "64 \<le> thumbPxOf opts" by (simp add: thumbPxOf_def)
      have p: "0 \<le> paddingPxOf opts" by (simp add: paddingPxOf_def)
      have "length (pg_items e) \<le> length items" using les mem by blast
      then have "length (pg_images e) \<le> length items"
        using length_fetched_le [of w "pg_items e"] by (simp add: im)
      then have "int (length (pg_images e)) \<le> int (length items)" by simp
      then have "int (length (pg_images e)) * (thumbPxOf opts + paddingPxOf opts)
                   \<le> int (length items) * (thumbPxOf opts + paddingPxOf opts)"
        using t p by (intro mult_right_mono) simp_all
      with b2 have b2': "int (length (pg_images e)) * (thumbPxOf opts + paddingPxOf opts) < 2 ^ 30"
        by simp
      from page_rows_pos [OF assms(2) nn gridColsOf_pos thumbColsOf_pos b1 t p ne b2' c bg]
      have r1: "1 \<le> rs" and r62: "rs < 2 ^ 62" by (simp_all add: rs cc)
      have "go_add rs 1 = rs + 1" using r1 r62 by (simp add: go_add_def wrap64_id)
      with r1 adv show ?thesis by simp
    qed
    have tie: "\<exists>png gw gh b ident.
                buildGridPNG (w_imaging w) (w_platform w) (pg_images e) c
                  (thumbPxOf opts) (paddingPxOf opts) = Inr (png, gw, gh)
              \<and> cc = go_mul c (thumbColsOf w opts)
              \<and> rs = estimateRows (w_platform w) cc gw gh (cellAspectOf w)
              \<and> (if Detect w = ProtocolIterm
                  then SendItermInline (w_trimSpace w) (Some b)
                         \<lparr>Name = ''instagram-grid.png'', IData = png, WidthCells = cc,
                          HeightCells = rs, Stretch = True\<rparr>
                  else SendKittyPNG (Some b) ident png cc rs) = Some (b @ fr)"
      using bg cc rs enc by blast
    from out im tie adv bounded show ?thesis by blast
  qed
  from rg so pe show ?thesis by blast
qed

text \<open>
  C9 at \<^verbatim>\<open>METCLI_CELL_ASPECT=NaN\<close> on amd64, for a page of two items of which one is
  decoded: the cell aspect ratio is a not-a-number, the row height \<open>rows\<close> of the page is
  its conversion to \<^verbatim>\<open>int\<close>, the smallest \<^verbatim>\<open>int\<close>, the encoder is called with this row
  height, and \<open>advanceCursor\<close> writes 2 newlines, which is not \<open>rows + 1\<close>.  With
  \<^verbatim>\<open>METCLI_CELL_ASPECT=1.5\<close> the same page has 18 rows and is followed by 19 newlines.
\<close>

theorem C9_cursor_advance_nan:
  "cellAspectOf (w_sample ''NaN'') = NaN
   \<and> (\<exists>st e fr adv b ident.
         renderGrid (w_sample ''NaN'') [0, 1] opts_sample = Some (st, [e])
       \<and> pg_event e = Transmitted 1 12 (- 9223372036854775808) fr adv
       \<and> SendKittyPNG (Some b) ident ''Px'' 12 (- 9223372036854775808) = Some (b @ fr)
       \<and> adv = [newline, newline]
       \<and> stdout st = fr @ adv)
   \<and> advances_of (renderGrid (w_sample ''NaN'') [0, 1] opts_sample)
       = [Some (- 9223372036854775808, 2)]
   \<and> advances_of (renderGrid (w_sample ''1.5'') [0, 1] opts_sample) = [Some (18, 19)]"
proof -
  have p: "PageSize opts_sample < 2 ^ 63" by (simp add: opts_sample_def)
  have n: "int (length [0, Suc 0]) < 2 ^ 62" by simp
  have cfg: "thumbPxOf opts_sample = 64" "paddingPxOf opts_sample = 0"
    by (simp_all add: thumbPxOf_def paddingPxOf_def opts_sample_def)
  have two: "nat (go_add 1 1) = 2" by (simp add: go_add_def wrap64_def)
  have run: "\<exists>st e fr adv b ident.
         renderGrid (w_sample a) [0, Suc 0] opts_sample = Some (st, [e])
       \<and> pg_event e = Transmitted 1 12 rs fr adv
       \<and> SendKittyPNG (Some b) ident ''Px'' 12 rs = Some (b @ fr)
       \<and> adv = replicate (nat (go_add (if rs < 1 then 1 else rs) 1)) newline
       \<and> stdout st = fr @ adv
       \<and> (cellAspectOf (w_sample a) \<noteq> NaN \<longrightarrow> adv = replicate (nat (rs + 1)) newline)"
    if rs: "estimateRows plat_amd64 12 64 64 (cellAspectOf (w_sample a)) = rs" for a rs
  proof -
    have d: "Detect (w_sample a) \<noteq> ProtocolNone" by (simp add: Detect_sample)
    have b1: "gridColsOf opts_sample * thumbColsOf (w_sample a) opts_sample < 2 ^ 30"
      by (simp add: gridColsOf_def thumbColsOf_def opts_sample_def)
    have b2: "int (length [0, Suc 0]) * (thumbPxOf opts_sample + paddingPxOf opts_sample) < 2 ^ 30"
      by (simp add: cfg)
    from sample_page_01 [of a, unfolded rs] obtain st0 e fr adv where
      rg0: "renderGrid (w_sample a) [0, Suc 0] opts_sample = Some (st0, [e])"
      and it: "pg_items e = [0, Suc 0]"
      and ev: "pg_event e = Transmitted 1 12 rs fr adv"
      by blast
    from cursor_advance_pages [OF d alloc_sample p n] obtain st plog where
      rg: "renderGrid (w_sample a) [0, Suc 0] opts_sample = Some (st, plog)"
      and so: "stdout st = concat (map pg_output plog)"
      and pe: "\<forall>e\<in>set plog. \<forall>c cc rs fr adv.
          pg_event e = Transmitted c cc rs fr adv \<longrightarrow>
            pg_output e = fr @ adv
          \<and> pg_images e = fetched (w_sample a) (pg_items e)
          \<and> (\<exists>png gw gh b ident.
                buildGridPNG (w_imaging (w_sample a)) (w_platform (w_sample a)) (pg_images e) c
                  (thumbPxOf opts_sample) (paddingPxOf opts_sample) = Inr (png, gw, gh)
              \<and> cc = go_mul c (thumbColsOf (w_sample a) opts_sample)
              \<and> rs = estimateRows (w_platform (w_sample a)) cc gw gh (cellAspectOf (w_sample a))
              \<and> (if Detect (w_sample a) = ProtocolIterm
                  then SendItermInline (w_trimSpace (w_sample a)) (Some b)
                         \<lparr>Name = ''instagram-grid.png'', IData = png, WidthCells = cc,
                          HeightCells = rs, Stretch = True\<rparr>
                  else SendKittyPNG (Some b) ident png cc rs) = Some (b @ fr))
          \<and> adv = replicate (nat (go_add (if rs < 1 then 1 else rs) 1)) newline
          \<and> (cellAspectOf (w_sample a) \<noteq> NaN
               \<and> gridColsOf opts_sample * thumbColsOf (w_sample a) opts_sample < 2 ^ 30
               \<and> int (length [0, Suc 0]) * (thumbPxOf opts_sample + paddingPxOf opts_sample) < 2 ^ 30
               \<longrightarrow> 1 \<le> rs \<and> adv = replicate (nat (rs + 1)) newline)"
      by blast
    from rg rg0 have pl: "plog = [e]" by simp
    have mem: "e \<in> set plog" by (simp add: pl)
    note q = pe [rule_format, OF mem ev]
    note out = q [THEN conjunct1]
    note im = q [THEN conjunct2, THEN conjunct1]
    note tie = q [THEN conjunct2, THEN conjunct2, THEN conjunct1]
    note adv = q [THEN conjunct2, THEN conjunct2, THEN conjunct2, THEN conjunct1]
    note num = q [THEN conjunct2, THEN conjunct2, THEN conjunct2, THEN conjunct2]
    have ims: "pg_images e = [sample_image]" by (simp add: im it fetched_sample_01)
    from tie obtain png gw gh b ident where
      bg: "buildGridPNG (w_imaging (w_sample a)) (w_platform (w_sample a)) (pg_images e) 1
                  (thumbPxOf opts_sample) (paddingPxOf opts_sample) = Inr (png, gw, gh)"
      and enc: "(if Detect (w_sample a) = ProtocolIterm
                  then SendItermInline (w_trimSpace (w_sample a)) (Some b)
                         \<lparr>Name = ''instagram-grid.png'', IData = png, WidthCells = 12,
                          HeightCells = rs, Stretch = True\<rparr>
                  else SendKittyPNG (Some b) ident png 12 rs) = Some (b @ fr)"
      by blast
    from bg have png: "png = ''Px''" by (simp add: ims cfg buildGridPNG_sample)
    from enc have k: "SendKittyPNG (Some b) ident ''Px'' 12 rs = Some (b @ fr)"
      by (simp add: Detect_sample png)
    have st: "stdout st = fr @ adv" by (simp add: so pl out)
    have nm: "adv = replicate (nat (rs + 1)) newline" if "cellAspectOf (w_sample a) \<noteq> NaN"
      using num that b1 b2 by blast
    from rg pl ev k adv st nm show ?thesis by blast
  qed
  have rn: "estimateRows plat_amd64 12 64 64 (cellAspectOf (w_sample ''NaN'')) = - 9223372036854775808"
    by (simp add: cellAspectOf_sample_nan estimateRows_NaN plat_amd64_def)
  from run [OF rn] obtain st e fr adv b ident where
    n1: "renderGrid (w_sample ''NaN'') [0, Suc 0] opts_sample = Some (st, [e])"
    and n2: "pg_event e = Transmitted 1 12 (- 9223372036854775808) fr adv"
    and n3: "SendKittyPNG (Some b) ident ''Px'' 12 (- 9223372036854775808) = Some (b @ fr)"
    and n4: "adv = replicate (nat (go_add (if (- 9223372036854775808 :: int) < 1 then 1
                                           else - 9223372036854775808) 1)) newline"
    and n5: "stdout st = fr @ adv"
    by blast
  from n4 have n4': "adv = [newline, newline]" by (simp add: two numeral_2_eq_2)
  have A: "\<exists>st e fr adv b ident.
         renderGrid (w_sample ''NaN'') [0, Suc 0] opts_sample = Some (st, [e])
       \<and> pg_event e = Transmitted 1 12 (- 9223372036854775808) fr adv
       \<and> SendKittyPNG (Some b) ident ''Px'' 12 (- 9223372036854775808) = Some (b @ fr)
       \<and> adv = [newline, newline]
       \<and> stdout st = fr @ adv"
    using n1 n2 n3 n4' n5 by blast
  have B: "advances_of (renderGrid (w_sample ''NaN'') [0, Suc 0] opts_sample)
       = [Some (- 9223372036854775808, 2)]"
    using n1 n2 n4' by (simp add: advances_of_def)
  have r15: "estimateRows plat_amd64 12 64 64 (cellAspectOf (w_sample ''1.5'')) = 18"
    by (simp add: cellAspectOf_sample_15 estimateRows_12_64_64)
  have nn: "cellAspectOf (w_sample ''1.5'') \<noteq> NaN" by (simp add: cellAspectOf_sample_15)
  from run [OF r15] nn obtain st' e' fr' adv' where
    m1: "renderGrid (w_sample ''1.5'') [0, Suc 0] opts_sample = Some (st', [e'])"
    and m2: "pg_event e' = Transmitted 1 12 18 fr' adv'"
    and m4: "adv' = replicate (nat (18 + 1)) newline"
    by blast
  from m4 have "adv' = replicate 19 newline" by simp
  with m1 m2 have C: "advances_of (renderGrid (w_sample ''1.5'') [0, Suc 0] opts_sample)
       = [Some (18, 19)]"
    by (simp add: advances_of_def)
  from A B C show ?thesis by (simp add: cellAspectOf_sample_nan)
qed


end
